theory Spec2Isabelle
  imports Complex_Main "HOL-Library.Char_ord" "HOL-Library.List_Lexorder"
begin

section \<open>Conventions of the embedding\<close>

text \<open>
  The development embeds the request engine of \<^verbatim>\<open>src/src/HttpRequest.{h,cpp}\<close>,
  \<^verbatim>\<open>src/src/HttpClient.{h,cpp}\<close>, \<^verbatim>\<open>src/src/HttpDownloader.h\<close>,
  \<^verbatim>\<open>src/src/util/iohelpers.{h,cpp}\<close> and \<^verbatim>\<open>src/youtube/YoutubeApi.{h,cpp}\<close>.

  \<^item> A C++ exception, a failed \<^verbatim>\<open>IwAssert\<close> and a read through a null pointer are
    values of type \<open>exn\<close>; a function that can raise one returns \<open>exn + 'a\<close>.
  \<^item> \<^verbatim>\<open>size_t\<close>, \<^verbatim>\<open>long\<close> and \<^verbatim>\<open>int\<close> are \<open>nat\<close> and \<open>int\<close>: the modelled code
    only adds chunk lengths and compares status codes, far below the word size.
  \<^item> \<^verbatim>\<open>double\<close> progress counters are only stored, never computed with; they are \<open>real\<close>.
  \<^item> \<^verbatim>\<open>std::string\<close> is \<open>string\<close> (a list of 8-bit characters); \<open>c_str\<close> is what a
    C function sees of it, the bytes before the first NUL.
  \<^item> \<^verbatim>\<open>std::map\<close> with string keys is an association list kept in key order, the
    order in which the C++ iterators visit it.
  \<^item> \<^verbatim>\<open>Ptr<HttpRequest>\<close> is an address (\<open>nat\<close>) into an explicit store of request
    objects; \<^verbatim>\<open>nullptr\<close> is \<open>None\<close>.
  \<^item> What the operating system, the C library, libcurl and the JSON reader decide is read
    from a record \<open>env\<close>, given anew at every call.
\<close>

datatype exn = AssertionFailure | runtime_error string | NullDereference

definition IwAssert :: "bool \<Rightarrow> exn + 'a \<Rightarrow> exn + 'a" where
  "IwAssert c k = (if c then k else Inl AssertionFailure)"

definition on_ok :: "exn + 'a \<Rightarrow> ('a \<Rightarrow> exn + 'b) \<Rightarrow> exn + 'b" where
  "on_ok m f = (case m of Inl e \<Rightarrow> Inl e | Inr x \<Rightarrow> f x)"

type_synonym size_t = nat
type_synonym double = real
type_synonym s3eFile = string
type_synonym CURLcode = nat

definition CURLE_OK :: CURLcode where
  "CURLE_OK = 0"

text \<open>
  Modelled from the spec: the declaration of \<^verbatim>\<open>CURL_READFUNC_ABORT\<close> lives in
  \<^verbatim>\<open>curl/curl.h\<close>, which is not part of the repository; the spec only says that the
  value returned on cancellation tells the engine to stop. The value is the one of libcurl.
\<close>

definition CURL_READFUNC_ABORT :: size_t where
  "CURL_READFUNC_ABORT = 268435456"

subsection \<open>External collaborators\<close>

datatype 'j UnknownElement = json_Null | json_String string | json_Tree 'j

datatype s3e_call =
    s3eFileMakeDirectory string
  | s3eFileOpen string string
  | s3eFileWrite s3eFile string
  | s3eFileRead s3eFile size_t
  | s3eFileClose s3eFile
  | s3eFileRename string string
  | s3eFileDelete string

record 'j env =
  char_signed :: bool
  json_Read :: "'j UnknownElement \<Rightarrow> string \<Rightarrow> (string \<times> 'j UnknownElement) + 'j UnknownElement"
  json_Write :: "'j \<Rightarrow> string"
  json_Object :: "'j"
  IsDir :: "string \<Rightarrow> bool"
  MakeDirectory_ok :: "string \<Rightarrow> bool"
  s3eFileGetError :: nat
  FileOpen_ok :: "string \<Rightarrow> bool"
  FileRead_data :: string
  realloc_ok :: bool
  uninitialised :: "nat \<Rightarrow> char"
  pthread_create_ok :: bool

text \<open>
  \<open>char_signed\<close>: whether plain \<^verbatim>\<open>char\<close> is signed on the target.
  \<open>json_Read e s\<close>: \<^verbatim>\<open>json::Reader::Read(e, stream(s))\<close>; \<open>Inl (what, e')\<close> is a thrown
  \<^verbatim>\<open>json::Exception\<close> that leaves the element as \<open>e'\<close>.
  \<open>FileRead_data\<close>: the bytes the next \<^verbatim>\<open>s3eFileRead\<close> can deliver.
  \<open>uninitialised\<close>: the contents of freshly allocated memory.
\<close>

subsection \<open>\<^verbatim>\<open>std::map\<close> with string keys\<close>

fun map_assign :: "string \<Rightarrow> 'v \<Rightarrow> (string \<times> 'v) list \<Rightarrow> (string \<times> 'v) list" where
  "map_assign k v [] = [(k, v)]"
| "map_assign k v ((k', v') # m) =
     (if k = k' then (k, v) # m
      else if k < k' then (k, v) # (k', v') # m
      else (k', v') # map_assign k v m)"

definition map_count :: "string \<Rightarrow> (string \<times> 'v) list \<Rightarrow> nat" where
  "map_count k m = (case map_of m k of None \<Rightarrow> 0 | Some _ \<Rightarrow> 1)"

subsection \<open>Printing numbers\<close>

definition hex_digit :: "nat \<Rightarrow> char" where
  "hex_digit d = ''0123456789abcdef'' ! d"

fun hex_digits :: "nat \<Rightarrow> string" where
  "hex_digits n = (if n < 16 then [hex_digit n] else hex_digits (n div 16) @ [hex_digit (n mod 16)])"

declare hex_digits.simps [simp del]

fun dec_digits :: "nat \<Rightarrow> string" where
  "dec_digits n = (if n < 10 then [''0123456789'' ! n] else dec_digits (n div 10) @ [''0123456789'' ! (n mod 10)])"

declare dec_digits.simps [simp del]

section \<open>\<^verbatim>\<open>HttpRequest::UrlEncode\<close>\<close>

text \<open>
  \<^verbatim>\<open>isalnum\<close> in the "C" locale. \<open>int_of_char\<close> is the cast \<^verbatim>\<open>(int) c\<close>, which sign-extends
  where plain \<^verbatim>\<open>char\<close> is signed. \<open>put_hex_int\<close> is \<^verbatim>\<open>operator<<(int)\<close> on a stream with
  \<^verbatim>\<open>std::hex\<close>, fill \<^verbatim>\<open>'0'\<close> and \<^verbatim>\<open>setw(2)\<close>: the 32-bit pattern of the value in lowercase
  hexadecimal (the stream never has \<^verbatim>\<open>std::uppercase\<close> set), padded to at least two digits.
\<close>

definition isalnum :: "char \<Rightarrow> bool" where
  "isalnum c = (let n = (of_char c :: nat) in
     (48 \<le> n \<and> n \<le> 57) \<or> (65 \<le> n \<and> n \<le> 90) \<or> (97 \<le> n \<and> n \<le> 122))"

definition int_of_char :: "bool \<Rightarrow> char \<Rightarrow> int" where
  "int_of_char sg c =
     (if sg \<and> 128 \<le> (of_char c :: nat) then int (of_char c) - 256 else int (of_char c))"

definition put_hex_int :: "int \<Rightarrow> string" where
  "put_hex_int i =
     (let s = hex_digits (nat (i mod 2 ^ 32)) in replicate (2 - length s) (CHR ''0'') @ s)"

fun UrlEncode_loop :: "bool \<Rightarrow> bool \<Rightarrow> string \<Rightarrow> string \<Rightarrow> string" where
  "UrlEncode_loop sg strict [] escaped = escaped"
| "UrlEncode_loop sg strict (c # rest) escaped =
     UrlEncode_loop sg strict rest
       (if isalnum c then escaped @ [c]
        else if (c = CHR ''-'' \<or> c = CHR ''_'' \<or> c = CHR ''.'') \<and> \<not> strict then escaped @ [c]
        else if c = CHR '' '' \<and> \<not> strict then escaped @ ''+''
        else escaped @ ''%'' @ put_hex_int (int_of_char sg c))"

definition UrlEncode :: "bool \<Rightarrow> string \<Rightarrow> bool \<Rightarrow> string" where
  "UrlEncode sg v strict = UrlEncode_loop sg strict v []"

text \<open>
  The rule in the words of the specification: alphanumerics and \<^verbatim>\<open>- _ .\<close> pass in both
  modes, a space becomes \<^verbatim>\<open>+\<close> in the lenient mode only, every other byte becomes \<^verbatim>\<open>%XX\<close>
  with two uppercase hexadecimal digits.
\<close>

definition HEX_DIGIT :: "nat \<Rightarrow> char" where
  "HEX_DIGIT d = ''0123456789ABCDEF'' ! d"

definition spec_encode_byte :: "bool \<Rightarrow> char \<Rightarrow> string" where
  "spec_encode_byte strict c =
     (if isalnum c \<or> c = CHR ''-'' \<or> c = CHR ''_'' \<or> c = CHR ''.'' then [c]
      else if c = CHR '' '' \<and> \<not> strict then ''+''
      else [CHR ''%'', HEX_DIGIT (of_char c div 16), HEX_DIGIT (of_char c mod 16)])"

definition spec_UrlEncode :: "string \<Rightarrow> bool \<Rightarrow> string" where
  "spec_UrlEncode v strict = concat (map (spec_encode_byte strict) v)"

text \<open>The rule the code follows, byte by byte.\<close>

definition encode_byte :: "bool \<Rightarrow> char \<Rightarrow> string" where
  "encode_byte strict c =
     (if isalnum c then [c]
      else if (c = CHR ''-'' \<or> c = CHR ''_'' \<or> c = CHR ''.'') \<and> \<not> strict then [c]
      else if c = CHR '' '' \<and> \<not> strict then ''+''
      else [CHR ''%'', hex_digit (of_char c div 16), hex_digit (of_char c mod 16)])"

section \<open>Helpers of \<^verbatim>\<open>std::string\<close> and \<^verbatim>\<open>iohelpers\<close>\<close>

definition c_str :: "string \<Rightarrow> string" where
  "c_str s = takeWhile (\<lambda>c. c \<noteq> CHR 0x00) s"

fun find_str :: "string \<Rightarrow> string \<Rightarrow> nat option" where
  "find_str pat [] = (if pat = [] then Some 0 else None)"
| "find_str pat (c # cs) =
     (if take (length pat) (c # cs) = pat then Some 0 else map_option Suc (find_str pat cs))"

fun find_last_of :: "char \<Rightarrow> string \<Rightarrow> nat option" where
  "find_last_of ch [] = None"
| "find_last_of ch (c # cs) =
     (case find_last_of ch cs of
        Some i \<Rightarrow> Some (Suc i)
      | None \<Rightarrow> if c = ch then Some 0 else None)"

definition DirName :: "string \<Rightarrow> string" where
  "DirName path = (case find_last_of (CHR ''/'') path of None \<Rightarrow> [] | Some pos \<Rightarrow> take pos path)"

text \<open>
  \<open>getline_parts s part\<close> is the loop \<^verbatim>\<open>while (std::getline(ss, part, '/'))\<close> of
  \<^verbatim>\<open>MakePath\<close>: the pieces between slashes, without an empty piece after a final slash.
\<close>

fun getline_parts :: "string \<Rightarrow> string \<Rightarrow> string list" where
  "getline_parts [] part = (if part = [] then [] else [part])"
| "getline_parts (c # cs) part =
     (if c = CHR ''/'' then part # getline_parts cs [] else getline_parts cs (part @ [c]))"

fun MakePath_loop :: "'j env \<Rightarrow> string list \<Rightarrow> string \<Rightarrow> s3e_call list \<Rightarrow> exn + s3e_call list" where
  "MakePath_loop env [] sub_path calls = Inr calls"
| "MakePath_loop env (part # parts) sub_path calls =
     (if length part = 0 then MakePath_loop env parts sub_path calls
      else
        (let sub_path' = sub_path @ part @ ''/'' in
         if \<not> IsDir env (c_str sub_path') then
           (if \<not> MakeDirectory_ok env (c_str sub_path') then
              Inl (runtime_error (''Error - unable to make path '' @ [CHR 0x27] @ sub_path' @ [CHR 0x27]
                     @ ''. Reported error had error code: '' @ dec_digits (s3eFileGetError env)))
            else MakePath_loop env parts sub_path' (calls @ [s3eFileMakeDirectory (c_str sub_path')]))
         else MakePath_loop env parts sub_path' calls))"

definition MakePath :: "'j env \<Rightarrow> string \<Rightarrow> s3e_call list \<Rightarrow> exn + s3e_call list" where
  "MakePath env uri calls =
     (let drive_sep = find_str ''://'' uri;
          drive = (case drive_sep of Some n \<Rightarrow> take (n + 3) uri | None \<Rightarrow> []);
          path = (case drive_sep of Some n \<Rightarrow> drop (n + 3) uri | None \<Rightarrow> uri)
      in MakePath_loop env (getline_parts path []) drive calls)"

section \<open>\<^verbatim>\<open>HttpRequest\<close> and its subclasses\<close>

datatype Method = GET | POST | HEAD | PUT

datatype Status = BUILDING | PENDING | SENDING | HEADERS | DONE | ERROR | CANCELLED

record HttpDownload_members =
  m_destFile :: string
  m_pTmpFile :: "s3eFile option"

record 'j HttpPost_members =
  m_data :: "(string \<times> string) list"
  m_postData :: string
  m_bytesUploaded :: size_t
  m_workerResponseBuffer :: "string option"
  m_workerResponseSize :: size_t
  m_responseData :: "'j UnknownElement"

record 'j YoutubeUploadRequest_members =
  yt_fileSize :: int
  yt_bytesUploaded :: size_t
  yt_workerResponseBuffer :: "string option"
  yt_workerResponseSize :: size_t
  yt_pUploadFile :: "s3eFile option"
  yt_filePath :: string
  yt_responseData :: "'j UnknownElement"

text \<open>
  The dynamic type of a request. \<^verbatim>\<open>HttpPostJson\<close> extends \<^verbatim>\<open>HttpPost\<close> by the member
  \<^verbatim>\<open>m_postDataJson\<close>: \<open>HttpPost_obj p (Some j)\<close> is an \<^verbatim>\<open>HttpPostJson\<close>, \<open>HttpPost_obj p None\<close>
  a plain \<^verbatim>\<open>HttpPost\<close>. The members of \<^verbatim>\<open>YoutubeUploadRequest\<close> carry the prefix \<open>yt_\<close>
  in place of \<open>m_\<close>.
\<close>

datatype 'j derived =
    HttpDownload_obj HttpDownload_members
  | HttpPost_obj "'j HttpPost_members" "'j option"
  | YoutubeUploadRequest_obj "'j YoutubeUploadRequest_members"

record 'j HttpRequest =
  m_method :: Method
  m_url :: string
  m_status :: Status
  m_uploadBytesNow :: double
  m_uploadBytesTotal :: double
  m_downloadBytesNow :: double
  m_downloadBytesTotal :: double
  m_requestHeaders :: "(string \<times> string) list"
  m_responseHeaders :: "(string \<times> string) list"
  sub :: "'j derived"

subsection \<open>The base class (\<^verbatim>\<open>HttpRequest.h\<close>)\<close>

text \<open>
  The constructor leaves the four progress counters uninitialised; they are 0 here, and no
  modelled code reads them.
\<close>

definition HttpRequest_new :: "Method \<Rightarrow> string \<Rightarrow> 'j derived \<Rightarrow> 'j HttpRequest" where
  "HttpRequest_new method url members =
     \<lparr> m_method = method, m_url = c_str url, m_status = BUILDING,
       m_uploadBytesNow = 0, m_uploadBytesTotal = 0, m_downloadBytesNow = 0, m_downloadBytesTotal = 0,
       m_requestHeaders = [], m_responseHeaders = [], sub = members \<rparr>"

definition Cancel :: "'j HttpRequest \<Rightarrow> 'j HttpRequest" where
  "Cancel r = (if m_status r = PENDING then r\<lparr>m_status := CANCELLED\<rparr> else r)"

definition SetHeader :: "string \<Rightarrow> string \<Rightarrow> 'j HttpRequest \<Rightarrow> exn + 'j HttpRequest" where
  "SetHeader header v r =
     IwAssert (m_status r = BUILDING)
       (Inr (r\<lparr>m_requestHeaders := map_assign header v (m_requestHeaders r)\<rparr>))"

definition HttpRequest_CompileRequest :: "'j HttpRequest \<Rightarrow> exn + 'j HttpRequest" where
  "HttpRequest_CompileRequest r =
     IwAssert (m_status r = BUILDING) (Inr (r\<lparr>m_status := PENDING\<rparr>))"

definition HandleRequestStart :: "'j HttpRequest \<Rightarrow> exn + 'j HttpRequest" where
  "HandleRequestStart r =
     IwAssert (m_status r = PENDING) (Inr (r\<lparr>m_status := SENDING\<rparr>))"

definition HandleResponseHeaders :: "(string \<times> string) list \<Rightarrow> 'j HttpRequest \<Rightarrow> exn + 'j HttpRequest" where
  "HandleResponseHeaders pFirstHeader r =
     IwAssert (m_status r = SENDING)
       (Inr (r\<lparr>m_status := HEADERS,
              m_responseHeaders := fold (\<lambda>(h, v). map_assign h v) pFirstHeader (m_responseHeaders r)\<rparr>))"

definition HttpRequest_HandleResponse :: "bool \<Rightarrow> int \<Rightarrow> 'j HttpRequest \<Rightarrow> exn + 'j HttpRequest" where
  "HttpRequest_HandleResponse success httpStatusCode r =
     IwAssert (m_status r = HEADERS) (Inr (r\<lparr>m_status := (if success then DONE else ERROR)\<rparr>))"

definition Worker_UpdateProgress :: "double \<Rightarrow> double \<Rightarrow> double \<Rightarrow> double \<Rightarrow> 'j HttpRequest \<Rightarrow> 'j HttpRequest" where
  "Worker_UpdateProgress dltotal dlnow ultotal ulnow r =
     r\<lparr>m_downloadBytesNow := dlnow, m_downloadBytesTotal := dltotal,
       m_uploadBytesNow := ulnow, m_uploadBytesTotal := ultotal\<rparr>"

subsection \<open>\<^verbatim>\<open>HttpDownload\<close> (\<^verbatim>\<open>HttpRequest.cpp\<close>, lines 42 to 76)\<close>

definition HttpDownload :: "'j env \<Rightarrow> string \<Rightarrow> string \<Rightarrow> s3e_call list \<Rightarrow> exn + ('j HttpRequest \<times> s3e_call list)" where
  "HttpDownload env url destFile calls =
     (let this = HttpRequest_new GET url (HttpDownload_obj \<lparr>m_destFile = destFile, m_pTmpFile = None\<rparr>);
          download_folder = DirName destFile
      in on_ok (if \<not> IsDir env (c_str download_folder) then MakePath env download_folder calls else Inr calls)
           (\<lambda>calls'. Inr (this\<lparr>m_status := PENDING\<rparr>, calls')))"

definition HttpDownload_Worker_HandleData ::
  "'j env \<Rightarrow> string \<Rightarrow> size_t \<Rightarrow> HttpDownload_members \<Rightarrow> s3e_call list
     \<Rightarrow> exn + (size_t \<times> HttpDownload_members \<times> s3e_call list)" where
  "HttpDownload_Worker_HandleData env contents size' d calls =
     on_ok
       (if m_pTmpFile d = None then
          (let tmp = c_str (m_destFile d @ ''.tmp''); calls1 = calls @ [s3eFileOpen tmp ''w''] in
           if FileOpen_ok env tmp then Inr (d\<lparr>m_pTmpFile := Some tmp\<rparr>, calls1)
           else Inl (runtime_error ''Unable to open file for downloading!''))
        else Inr (d, calls))
       (\<lambda>(d1, calls1).
          case m_pTmpFile d1 of
            Some f \<Rightarrow> Inr (size', d1, calls1 @ [s3eFileWrite f (take size' contents)])
          | None \<Rightarrow> Inr (size', d1, calls1))"

definition HttpDownload_Worker_HandleDone ::
  "bool \<Rightarrow> int \<Rightarrow> HttpDownload_members \<Rightarrow> s3e_call list \<Rightarrow> HttpDownload_members \<times> s3e_call list" where
  "HttpDownload_Worker_HandleDone success httpStatusCode d calls =
     (case m_pTmpFile d of
        Some f \<Rightarrow>
          (d\<lparr>m_pTmpFile := None\<rparr>,
           calls @ [s3eFileClose f] @
             (if success \<and> httpStatusCode = 200
              then [s3eFileRename (c_str (m_destFile d @ ''.tmp'')) (c_str (m_destFile d))]
              else [s3eFileDelete (c_str (m_destFile d @ ''.tmp''))]))
      | None \<Rightarrow> (d, calls))"

subsection \<open>\<^verbatim>\<open>HttpPost\<close> and \<^verbatim>\<open>HttpPostJson\<close> (\<^verbatim>\<open>HttpRequest.cpp\<close>, lines 81 to 162)\<close>

definition HttpPost_init :: "string \<Rightarrow> 'j option \<Rightarrow> exn + 'j HttpRequest" where
  "HttpPost_init url ext =
     SetHeader ''Content-Type'' ''application/x-www-form-urlencoded''
       (HttpRequest_new POST url
          (HttpPost_obj \<lparr>m_data = [], m_postData = [], m_bytesUploaded = 0,
                         m_workerResponseBuffer = None, m_workerResponseSize = 0,
                         m_responseData = json_Null\<rparr> ext))"

definition HttpPost :: "string \<Rightarrow> exn + 'j HttpRequest" where
  "HttpPost url = HttpPost_init url None"

definition HttpPostJson :: "'j env \<Rightarrow> string \<Rightarrow> exn + 'j HttpRequest" where
  "HttpPostJson env url =
     on_ok (HttpPost_init url (Some (json_Object env))) (SetHeader ''Content-Type'' ''application/json'')"

text \<open>\<open>SetValue\<close> and \<open>SetPostData\<close> exist on the post classes only; on another object they do nothing here.\<close>

definition SetValue :: "string \<Rightarrow> string \<Rightarrow> 'j HttpRequest \<Rightarrow> 'j HttpRequest" where
  "SetValue key v r =
     (case sub r of
        HttpPost_obj p ext \<Rightarrow> r\<lparr>sub := HttpPost_obj (p\<lparr>m_data := map_assign key v (m_data p)\<rparr>) ext\<rparr>
      | _ \<Rightarrow> r)"

definition SetPostData :: "'j \<Rightarrow> 'j HttpRequest \<Rightarrow> exn + 'j HttpRequest" where
  "SetPostData jsonObj r =
     (case sub r of
        HttpPost_obj p (Some j) \<Rightarrow>
          IwAssert (m_status r = BUILDING) (Inr (r\<lparr>sub := HttpPost_obj p (Some jsonObj)\<rparr>))
      | _ \<Rightarrow> Inr r)"

fun HttpPost_CompileRequest_loop :: "bool \<Rightarrow> (string \<times> string) list \<Rightarrow> bool \<Rightarrow> string \<Rightarrow> string" where
  "HttpPost_CompileRequest_loop sg [] at_begin postData = postData"
| "HttpPost_CompileRequest_loop sg ((k, v) # rest) at_begin postData =
     HttpPost_CompileRequest_loop sg rest False
       ((if at_begin then postData else postData @ ''&'')
          @ UrlEncode sg k True @ ''='' @ UrlEncode sg v True)"

definition HttpPost_CompileRequest ::
  "'j env \<Rightarrow> 'j HttpRequest \<Rightarrow> 'j HttpPost_members \<Rightarrow> 'j option \<Rightarrow> exn + 'j HttpRequest" where
  "HttpPost_CompileRequest env r p ext =
     IwAssert (m_postData p = [])
       (HttpRequest_CompileRequest
          (r\<lparr>sub := HttpPost_obj
                 (p\<lparr>m_postData := HttpPost_CompileRequest_loop (char_signed env) (m_data p) True (m_postData p)\<rparr>)
                 ext\<rparr>))"

definition HttpPostJson_CompileRequest ::
  "'j env \<Rightarrow> 'j HttpRequest \<Rightarrow> 'j HttpPost_members \<Rightarrow> 'j \<Rightarrow> exn + 'j HttpRequest" where
  "HttpPostJson_CompileRequest env r p j =
     (let postData = json_Write env j in
      on_ok (SetHeader ''Content-Length'' (dec_digits (length postData))
               (r\<lparr>sub := HttpPost_obj (p\<lparr>m_postData := postData\<rparr>) (Some j)\<rparr>))
        HttpRequest_CompileRequest)"

definition HttpPost_Worker_HandleUpload ::
  "size_t \<Rightarrow> 'j HttpPost_members \<Rightarrow> size_t \<times> string \<times> 'j HttpPost_members" where
  "HttpPost_Worker_HandleUpload fillSize p =
     (let ncopy = min (length (m_postData p) - m_bytesUploaded p) fillSize in
      (ncopy, take ncopy (drop (m_bytesUploaded p) (m_postData p)),
       p\<lparr>m_bytesUploaded := m_bytesUploaded p + ncopy\<rparr>))"

text \<open>
  \<open>realloc env ptr n\<close>: a null result when the allocator fails, else a block of \<open>n\<close> bytes that
  starts with the old contents. \<open>memcpy_at dst off src n\<close> is \<^verbatim>\<open>memcpy(dst + off, src, n)\<close>.
  \<open>std_string_n ptr n\<close> is the constructor \<^verbatim>\<open>std::string(ptr, n)\<close>; from a null pointer with
  \<open>n > 0\<close> it reads through null.
\<close>

definition realloc :: "'j env \<Rightarrow> string option \<Rightarrow> size_t \<Rightarrow> string option" where
  "realloc env ptr n =
     (if realloc_ok env then
        (let old = (case ptr of None \<Rightarrow> [] | Some b \<Rightarrow> b)
         in Some (take n (old @ map (uninitialised env) [length old..<n])))
      else None)"

definition memcpy_at :: "string \<Rightarrow> nat \<Rightarrow> string \<Rightarrow> nat \<Rightarrow> string" where
  "memcpy_at dst off src n = take off dst @ take n src @ drop (off + n) dst"

definition std_string_n :: "string option \<Rightarrow> size_t \<Rightarrow> exn + string" where
  "std_string_n ptr n =
     (case ptr of
        None \<Rightarrow> if n = 0 then Inr [] else Inl NullDereference
      | Some b \<Rightarrow> Inr (take n b))"

definition HttpPost_Worker_HandleData ::
  "'j env \<Rightarrow> string \<Rightarrow> size_t \<Rightarrow> 'j HttpPost_members \<Rightarrow> size_t \<times> 'j HttpPost_members" where
  "HttpPost_Worker_HandleData env contents size' p =
     (if size' > 0 then
        (case realloc env (m_workerResponseBuffer p) (m_workerResponseSize p + size') of
           Some b \<Rightarrow>
             (size', p\<lparr>m_workerResponseBuffer := Some (memcpy_at b (m_workerResponseSize p) contents size'),
                       m_workerResponseSize := m_workerResponseSize p + size'\<rparr>)
         | None \<Rightarrow> (size', p\<lparr>m_workerResponseBuffer := None\<rparr>))
      else (size', p))"

definition HttpPost_HandleResponse ::
  "'j env \<Rightarrow> bool \<Rightarrow> int \<Rightarrow> 'j HttpRequest \<Rightarrow> 'j HttpPost_members \<Rightarrow> 'j option \<Rightarrow> exn + 'j HttpRequest" where
  "HttpPost_HandleResponse env success httpStatusCode r p ext =
     on_ok (HttpRequest_HandleResponse success httpStatusCode r) (\<lambda>r1.
     on_ok (std_string_n (m_workerResponseBuffer p) (m_workerResponseSize p)) (\<lambda>response.
       if success then
         (if response = [] then
            Inr (r1\<lparr>sub := HttpPost_obj (p\<lparr>m_responseData := json_Null\<rparr>) ext\<rparr>)
          else if hd response = CHR ''['' \<or> hd response = CHR ''{'' then
            (case json_Read env (m_responseData p) response of
               Inr e \<Rightarrow> Inr (r1\<lparr>sub := HttpPost_obj (p\<lparr>m_responseData := e\<rparr>) ext\<rparr>)
             | Inl (what, e) \<Rightarrow>
                 Inr (r1\<lparr>m_status := ERROR, sub := HttpPost_obj (p\<lparr>m_responseData := e\<rparr>) ext\<rparr>))
          else Inr (r1\<lparr>sub := HttpPost_obj (p\<lparr>m_responseData := json_String response\<rparr>) ext\<rparr>))
       else Inr r1))"

subsection \<open>\<^verbatim>\<open>YoutubeUploadRequest\<close> (\<^verbatim>\<open>YoutubeApi.cpp\<close>, lines 82 to 135)\<close>

definition YoutubeUploadRequest_Worker_HandleUpload ::
  "'j env \<Rightarrow> size_t \<Rightarrow> 'j YoutubeUploadRequest_members \<Rightarrow> s3e_call list
     \<Rightarrow> exn + (size_t \<times> string \<times> 'j YoutubeUploadRequest_members \<times> s3e_call list)" where
  "YoutubeUploadRequest_Worker_HandleUpload env fillSize y calls =
     on_ok
       (if yt_pUploadFile y = None then
          (let calls1 = calls @ [s3eFileOpen (c_str (yt_filePath y)) ''rb''] in
           if FileOpen_ok env (c_str (yt_filePath y))
           then Inr (y\<lparr>yt_pUploadFile := Some (c_str (yt_filePath y))\<rparr>, calls1)
           else Inl (runtime_error ''Unable to open file for uploading!''))
        else Inr (y, calls))
       (\<lambda>(y1, calls1).
          case yt_pUploadFile y1 of
            Some f \<Rightarrow>
              (let data = take fillSize (FileRead_data env); ncopy = length data in
               Inr (ncopy, data, y1\<lparr>yt_bytesUploaded := yt_bytesUploaded y1 + ncopy\<rparr>,
                    calls1 @ [s3eFileRead f fillSize]))
          | None \<Rightarrow> Inr (0, [], y1, calls1))"

definition YoutubeUploadRequest_Worker_HandleData ::
  "'j env \<Rightarrow> string \<Rightarrow> size_t \<Rightarrow> 'j YoutubeUploadRequest_members \<Rightarrow> size_t \<times> 'j YoutubeUploadRequest_members" where
  "YoutubeUploadRequest_Worker_HandleData env contents size' y =
     (if size' > 0 then
        (case realloc env (yt_workerResponseBuffer y) (yt_workerResponseSize y + size') of
           Some b \<Rightarrow>
             (size', y\<lparr>yt_workerResponseBuffer := Some (memcpy_at b (yt_workerResponseSize y) contents size'),
                       yt_workerResponseSize := yt_workerResponseSize y + size'\<rparr>)
         | None \<Rightarrow> (size', y\<lparr>yt_workerResponseBuffer := None\<rparr>))
      else (size', y))"

definition YoutubeUploadRequest_Worker_HandleCleanup ::
  "'j YoutubeUploadRequest_members \<Rightarrow> s3e_call list \<Rightarrow> s3e_call list" where
  "YoutubeUploadRequest_Worker_HandleCleanup y calls =
     (case yt_pUploadFile y of Some f \<Rightarrow> calls @ [s3eFileClose f] | None \<Rightarrow> calls)"

definition YoutubeUploadRequest_HandleResponse ::
  "'j env \<Rightarrow> bool \<Rightarrow> int \<Rightarrow> 'j HttpRequest \<Rightarrow> 'j YoutubeUploadRequest_members \<Rightarrow> exn + 'j HttpRequest" where
  "YoutubeUploadRequest_HandleResponse env success httpStatusCode r y =
     on_ok (HttpRequest_HandleResponse success httpStatusCode r) (\<lambda>r1.
     on_ok (std_string_n (yt_workerResponseBuffer y) (yt_workerResponseSize y)) (\<lambda>response.
       if success then
         (if response = [] then
            Inr (r1\<lparr>sub := YoutubeUploadRequest_obj (y\<lparr>yt_responseData := json_Null\<rparr>)\<rparr>)
          else if hd response = CHR ''['' \<or> hd response = CHR ''{'' then
            (case json_Read env (yt_responseData y) response of
               Inr e \<Rightarrow> Inr (r1\<lparr>sub := YoutubeUploadRequest_obj (y\<lparr>yt_responseData := e\<rparr>)\<rparr>)
             | Inl (what, e) \<Rightarrow>
                 Inr (r1\<lparr>m_status := ERROR, sub := YoutubeUploadRequest_obj (y\<lparr>yt_responseData := e\<rparr>)\<rparr>))
          else Inr (r1\<lparr>sub := YoutubeUploadRequest_obj (y\<lparr>yt_responseData := json_String response\<rparr>)\<rparr>))
       else Inr r1))"

subsection \<open>Virtual dispatch\<close>

text \<open>
  Each function below is a virtual method of \<^verbatim>\<open>HttpRequest\<close>: it selects the override of
  the object's dynamic type, or the base implementation where the class has none.
  The worker-side methods also thread the log of file-system calls.
\<close>

definition CompileRequest :: "'j env \<Rightarrow> 'j HttpRequest \<Rightarrow> exn + 'j HttpRequest" where
  "CompileRequest env r =
     (case sub r of
        HttpPost_obj p None \<Rightarrow> HttpPost_CompileRequest env r p None
      | HttpPost_obj p (Some j) \<Rightarrow> HttpPostJson_CompileRequest env r p j
      | _ \<Rightarrow> HttpRequest_CompileRequest r)"

definition HandleResponse :: "'j env \<Rightarrow> bool \<Rightarrow> int \<Rightarrow> 'j HttpRequest \<Rightarrow> exn + 'j HttpRequest" where
  "HandleResponse env success httpStatusCode r =
     (case sub r of
        HttpDownload_obj d \<Rightarrow> HttpRequest_HandleResponse success httpStatusCode r
      | HttpPost_obj p ext \<Rightarrow> HttpPost_HandleResponse env success httpStatusCode r p ext
      | YoutubeUploadRequest_obj y \<Rightarrow> YoutubeUploadRequest_HandleResponse env success httpStatusCode r y)"

definition Worker_HandleData ::
  "'j env \<Rightarrow> string \<Rightarrow> size_t \<Rightarrow> 'j HttpRequest \<Rightarrow> s3e_call list
     \<Rightarrow> exn + (size_t \<times> 'j HttpRequest \<times> s3e_call list)" where
  "Worker_HandleData env contents size' r calls =
     (case sub r of
        HttpDownload_obj d \<Rightarrow>
          on_ok (HttpDownload_Worker_HandleData env contents size' d calls)
            (\<lambda>(n, d', calls'). Inr (n, r\<lparr>sub := HttpDownload_obj d'\<rparr>, calls'))
      | HttpPost_obj p ext \<Rightarrow>
          (let (n, p') = HttpPost_Worker_HandleData env contents size' p
           in Inr (n, r\<lparr>sub := HttpPost_obj p' ext\<rparr>, calls))
      | YoutubeUploadRequest_obj y \<Rightarrow>
          (let (n, y') = YoutubeUploadRequest_Worker_HandleData env contents size' y
           in Inr (n, r\<lparr>sub := YoutubeUploadRequest_obj y'\<rparr>, calls)))"

definition Worker_HandleUpload ::
  "'j env \<Rightarrow> size_t \<Rightarrow> 'j HttpRequest \<Rightarrow> s3e_call list
     \<Rightarrow> exn + (size_t \<times> string \<times> 'j HttpRequest \<times> s3e_call list)" where
  "Worker_HandleUpload env fillSize r calls =
     (case sub r of
        HttpDownload_obj d \<Rightarrow> Inr (0, [], r, calls)
      | HttpPost_obj p ext \<Rightarrow>
          (let (n, data, p') = HttpPost_Worker_HandleUpload fillSize p
           in Inr (n, data, r\<lparr>sub := HttpPost_obj p' ext\<rparr>, calls))
      | YoutubeUploadRequest_obj y \<Rightarrow>
          on_ok (YoutubeUploadRequest_Worker_HandleUpload env fillSize y calls)
            (\<lambda>(n, data, y', calls'). Inr (n, data, r\<lparr>sub := YoutubeUploadRequest_obj y'\<rparr>, calls')))"

definition Worker_HandleDone ::
  "bool \<Rightarrow> int \<Rightarrow> 'j HttpRequest \<Rightarrow> s3e_call list \<Rightarrow> 'j HttpRequest \<times> s3e_call list" where
  "Worker_HandleDone success httpStatusCode r calls =
     (case sub r of
        HttpDownload_obj d \<Rightarrow>
          (let (d', calls') = HttpDownload_Worker_HandleDone success httpStatusCode d calls
           in (r\<lparr>sub := HttpDownload_obj d'\<rparr>, calls'))
      | _ \<Rightarrow> (r, calls))"

text \<open>
  \<^verbatim>\<open>HttpPost::Worker_HandleCleanup\<close> only calls \<^verbatim>\<open>free\<close>, which changes no member.
\<close>

definition Worker_HandleCleanup :: "'j HttpRequest \<Rightarrow> s3e_call list \<Rightarrow> 'j HttpRequest \<times> s3e_call list" where
  "Worker_HandleCleanup r calls =
     (case sub r of
        YoutubeUploadRequest_obj y \<Rightarrow> (r, YoutubeUploadRequest_Worker_HandleCleanup y calls)
      | _ \<Rightarrow> (r, calls))"

section \<open>The worker (\<^verbatim>\<open>HttpClient.cpp\<close>, lines 29 to 218)\<close>

datatype StatusCode = UNUSED | ACTIVE | WORKER_DONE | CLEANUP | READY

text \<open>
  \<open>WORKER_DONE\<close> is \<^verbatim>\<open>HttpClient_Worker::DONE\<close>. \<open>pCurl\<close> records whether the session
  handle is non-null; the worker's thread sets it when it starts and clears it when it ends.
  The linked list \<^verbatim>\<open>RH\<close> is a list of pairs, newest header first.
\<close>

record Worker =
  pCurl :: bool
  pRequest :: "nat option"
  cancelAndQuit :: bool
  status :: StatusCode
  responseHeadersDone :: bool
  pResponseHeaders :: "(string \<times> string) list"
  result :: CURLcode
  responseStatusCode :: int

definition HttpClient_Worker :: Worker where
  "HttpClient_Worker =
     \<lparr> pCurl = False, pRequest = None, cancelAndQuit = False, status = UNUSED,
       responseHeadersDone = False, pResponseHeaders = [], result = CURLE_OK, responseStatusCode = 0 \<rparr>"

definition Reset :: "Worker \<Rightarrow> Worker" where
  "Reset w = w\<lparr>responseHeadersDone := False, pResponseHeaders := [], responseStatusCode := 0\<rparr>"

definition CancelAndQuit :: "Worker \<Rightarrow> Worker" where
  "CancelAndQuit w = w\<lparr>cancelAndQuit := True\<rparr>"

definition WakeToStatus :: "StatusCode \<Rightarrow> Worker \<Rightarrow> Worker" where
  "WakeToStatus sc w = w\<lparr>status := sc\<rparr>"

section \<open>The program state\<close>

text \<open>
  One \<^verbatim>\<open>HttpDownloader\<close> (which is an \<^verbatim>\<open>HttpClient\<close>), the request objects it refers to,
  and what has been observed outside: \<open>delivered\<close> lists the invocations of application
  callbacks (\<^verbatim>\<open>HttpStaticCallback\<close> number and request), \<open>calls\<close> the file-system calls made,
  \<open>handled\<close> the invocations of the virtual \<^verbatim>\<open>HandleResponse\<close> that have returned (the
  request and the arguments \<^verbatim>\<open>success\<close> and \<^verbatim>\<open>httpStatusCode\<close> it was given).
  \<^verbatim>\<open>new\<close> returns the address \<open>next_object\<close>. \<^verbatim>\<open>NUM_WORKERS\<close> is \<open>length (m_workers s)\<close>.
\<close>

datatype HttpCallbackBase = HttpStaticCallback nat | HttpCallback_HandleDownloadDone

record 'j program =
  objects :: "nat \<rightharpoonup> 'j HttpRequest"
  next_object :: nat
  m_workers :: "Worker list"
  m_pendingRequests :: "nat list"
  m_pendingCallbacks :: "(nat \<times> HttpCallbackBase) list"
  m_activeDownloads :: "(string \<times> nat) list"
  delivered :: "(nat \<times> nat) list"
  calls :: "s3e_call list"
  handled :: "(nat \<times> bool \<times> int) list"

definition HttpDownloader :: "nat \<Rightarrow> 'j program" where
  "HttpDownloader numWorkers =
     \<lparr> objects = Map.empty, next_object = 0, m_workers = replicate numWorkers HttpClient_Worker,
       m_pendingRequests = [], m_pendingCallbacks = [], m_activeDownloads = [],
       delivered = [], calls = [], handled = [] \<rparr>"

definition deref :: "'j program \<Rightarrow> nat option \<Rightarrow> exn + (nat \<times> 'j HttpRequest)" where
  "deref s p =
     (case p of
        None \<Rightarrow> Inl NullDereference
      | Some a \<Rightarrow> (case objects s a of None \<Rightarrow> Inl NullDereference | Some r \<Rightarrow> Inr (a, r)))"

definition store :: "nat \<Rightarrow> 'j HttpRequest \<Rightarrow> 'j program \<Rightarrow> 'j program" where
  "store a r s = s\<lparr>objects := (objects s)(a \<mapsto> r)\<rparr>"

definition set_worker :: "nat \<Rightarrow> (Worker \<Rightarrow> Worker) \<Rightarrow> 'j program \<Rightarrow> 'j program" where
  "set_worker i f s = s\<lparr>m_workers := (m_workers s)[i := f (m_workers s ! i)]\<rparr>"

subsection \<open>The libcurl callbacks (lines 63 to 124)\<close>

text \<open>
  Each callback runs on the thread of worker \<open>i\<close>, a valid index into \<open>m_workers\<close>; it returns
  the value handed back to libcurl and the new state.
\<close>

definition HttpClient_WorkerThread_WriteCallback ::
  "'j env \<Rightarrow> string \<Rightarrow> size_t \<Rightarrow> size_t \<Rightarrow> nat \<Rightarrow> 'j program \<Rightarrow> exn + (size_t \<times> 'j program)" where
  "HttpClient_WorkerThread_WriteCallback env contents size' nmemb i s =
     (let pWorker = m_workers s ! i in
      if cancelAndQuit pWorker then Inr (0, s)
      else
        (let realsize = size' * nmemb in
         on_ok (deref s (pRequest pWorker)) (\<lambda>(a, r).
         on_ok (Worker_HandleData env contents realsize r (calls s)) (\<lambda>(n, r', calls').
           Inr (n, store a r' (s\<lparr>calls := calls'\<rparr>))))))"

definition HttpClient_WorkerThread_ReadCallback ::
  "'j env \<Rightarrow> size_t \<Rightarrow> size_t \<Rightarrow> nat \<Rightarrow> 'j program \<Rightarrow> exn + (size_t \<times> string \<times> 'j program)" where
  "HttpClient_WorkerThread_ReadCallback env size' nmemb i s =
     (let pWorker = m_workers s ! i in
      if cancelAndQuit pWorker then Inr (CURL_READFUNC_ABORT, [], s)
      else
        (let realsize = size' * nmemb in
         on_ok (deref s (pRequest pWorker)) (\<lambda>(a, r).
         on_ok (Worker_HandleUpload env realsize r (calls s)) (\<lambda>(n, data, r', calls').
           Inr (n, data, store a r' (s\<lparr>calls := calls'\<rparr>))))))"

definition HeaderCallback_worker :: "string \<Rightarrow> size_t \<Rightarrow> Worker \<Rightarrow> Worker" where
  "HeaderCallback_worker pHeader realsize pWorker =
     (let header0 = take realsize pHeader;
          header = (if length header0 \<ge> 2 \<and> drop (length header0 - 2) header0 = [CHR 0x0D, CHR 0x0A]
                    then take (length header0 - 2) header0 else header0);
          colon_pos = find_str '':'' header
      in if header = [] then pWorker\<lparr>responseHeadersDone := True\<rparr>
         else
           (case colon_pos of
              Some pos \<Rightarrow>
                (let key = take pos header;
                     val = dropWhile (\<lambda>c. c = CHR '' '') (drop (Suc pos) header)
                 in pWorker\<lparr>pResponseHeaders := (key, val) # pResponseHeaders pWorker\<rparr>)
            | None \<Rightarrow>
                if take 4 header = ''HTTP''
                then pWorker\<lparr>pResponseHeaders := (''HTTP'', header) # pResponseHeaders pWorker\<rparr>
                else pWorker))"

definition HttpClient_WorkerThread_HeaderCallback ::
  "string \<Rightarrow> size_t \<Rightarrow> size_t \<Rightarrow> nat \<Rightarrow> 'j program \<Rightarrow> size_t \<times> 'j program" where
  "HttpClient_WorkerThread_HeaderCallback pHeader size' nmemb i s =
     (let pWorker = m_workers s ! i in
      if cancelAndQuit pWorker then (0, s)
      else
        (let realsize = size' * nmemb
         in (realsize, set_worker i (HeaderCallback_worker pHeader realsize) s)))"

definition HttpClient_WorkerThread_ProgressCallback ::
  "double \<Rightarrow> double \<Rightarrow> double \<Rightarrow> double \<Rightarrow> nat \<Rightarrow> 'j program \<Rightarrow> exn + (int \<times> 'j program)" where
  "HttpClient_WorkerThread_ProgressCallback dltotal dlnow ultotal ulnow i s =
     (let pWorker = m_workers s ! i in
      if cancelAndQuit pWorker then Inr (1, s)
      else
        on_ok (deref s (pRequest pWorker)) (\<lambda>(a, r).
          Inr (0, store a (Worker_UpdateProgress dltotal dlnow ultotal ulnow r) s)))"

subsection \<open>The thread body (lines 126 to 218)\<close>

text \<open>
  \<open>WorkerThread_begin\<close>: the thread starts and creates its session (line 129).
  \<open>WorkerThread_performed\<close>: \<^verbatim>\<open>curl_easy_perform\<close> has returned \<open>res\<close> and libcurl reports
  the status \<open>code\<close> (lines 173 to 185); the thread then sleeps in state \<open>WORKER_DONE\<close>.
  \<open>WorkerThread_cleanup\<close>: woken by the application (lines 188 to 199); the thread ends here
  when cancellation was requested (lines 214 and 215).
  \<open>WorkerThread_quit\<close>: the idle thread notices the cancellation flag and ends.
\<close>

definition WorkerThread_begin :: "nat \<Rightarrow> 'j program \<Rightarrow> 'j program" where
  "WorkerThread_begin i s = set_worker i (\<lambda>w. w\<lparr>pCurl := True\<rparr>) s"

definition WorkerThread_performed :: "CURLcode \<Rightarrow> int \<Rightarrow> nat \<Rightarrow> 'j program \<Rightarrow> exn + 'j program" where
  "WorkerThread_performed res code i s =
     (let s1 = set_worker i (\<lambda>w. w\<lparr>result := res, responseStatusCode := code\<rparr>) s;
          pWorker = m_workers s1 ! i
      in on_ok (deref s1 (pRequest pWorker)) (\<lambda>(a, r).
           (let finished =
                  Worker_HandleDone (result pWorker = CURLE_OK) (responseStatusCode pWorker) r (calls s1)
            in Inr (set_worker i (\<lambda>w. w\<lparr>status := WORKER_DONE\<rparr>)
                      (store a (fst finished) (s1\<lparr>calls := snd finished\<rparr>))))))"

definition WorkerThread_cleanup :: "nat \<Rightarrow> 'j program \<Rightarrow> exn + 'j program" where
  "WorkerThread_cleanup i s =
     (let pWorker = m_workers s ! i in
      IwAssert (status pWorker = CLEANUP)
        (on_ok (deref s (pRequest pWorker)) (\<lambda>(a, r).
           (let cleaned = Worker_HandleCleanup r (calls s);
                s1 = set_worker i Reset (store a (fst cleaned) (s\<lparr>calls := snd cleaned\<rparr>))
            in if cancelAndQuit (m_workers s1 ! i)
               then Inr (set_worker i (\<lambda>w. w\<lparr>pCurl := False\<rparr>) s1)
               else Inr (set_worker i (\<lambda>w. w\<lparr>status := READY\<rparr>) s1)))))"

definition WorkerThread_quit :: "nat \<Rightarrow> 'j program \<Rightarrow> 'j program" where
  "WorkerThread_quit i s = set_worker i (\<lambda>w. w\<lparr>pCurl := False\<rparr>) s"

section \<open>\<^verbatim>\<open>HttpClient\<close> and \<^verbatim>\<open>HttpDownloader\<close>\<close>

subsection \<open>\<^verbatim>\<open>HttpDownloader::HandleDownloadDone\<close> (\<^verbatim>\<open>HttpDownloader.h\<close>, lines 28 to 37)\<close>

fun HandleDownloadDone_loop :: "nat \<Rightarrow> (string \<times> nat) list \<Rightarrow> (string \<times> nat) list" where
  "HandleDownloadDone_loop pRequest' [] = []"
| "HandleDownloadDone_loop pRequest' ((k, v) # m) =
     (if v = pRequest' then m else (k, v) # HandleDownloadDone_loop pRequest' m)"

definition HandleDownloadDone :: "nat \<Rightarrow> 'j program \<Rightarrow> 'j program" where
  "HandleDownloadDone pRequest' s =
     s\<lparr>m_activeDownloads := HandleDownloadDone_loop pRequest' (m_activeDownloads s)\<rparr>"

subsection \<open>Callbacks (\<^verbatim>\<open>HttpClient.h\<close>, lines 21 to 44)\<close>

text \<open>
  \<open>HttpCallback_HandleDownloadDone\<close> is the callback object that \<^verbatim>\<open>DownloadFile\<close> creates;
  its watcher is the downloader itself. The body of an application callback is outside the
  repository: its invocation is recorded in \<open>delivered\<close>.
\<close>

definition Call :: "HttpCallbackBase \<Rightarrow> nat \<Rightarrow> 'j program \<Rightarrow> 'j program" where
  "Call cb pRequest' s =
     (case cb of
        HttpCallback_HandleDownloadDone \<Rightarrow> HandleDownloadDone pRequest' s
      | HttpStaticCallback f \<Rightarrow> s\<lparr>delivered := delivered s @ [(f, pRequest')]\<rparr>)"

subsection \<open>\<^verbatim>\<open>HttpClient::QueueRequest\<close> (\<^verbatim>\<open>HttpClient.h\<close>, lines 78 to 85)\<close>

definition QueueRequest :: "'j env \<Rightarrow> nat \<Rightarrow> HttpCallbackBase option \<Rightarrow> 'j program \<Rightarrow> exn + 'j program" where
  "QueueRequest env pRequest' pCallback s =
     on_ok (deref s (Some pRequest')) (\<lambda>(a, r).
     on_ok (if m_status r = BUILDING then CompileRequest env r else Inr r) (\<lambda>r1.
       IwAssert (m_status r1 = PENDING)
         (Inr ((store a r1 s)
                 \<lparr>m_pendingRequests := m_pendingRequests s @ [a],
                  m_pendingCallbacks :=
                    (case pCallback of
                       Some cb \<Rightarrow> m_pendingCallbacks s @ [(a, cb)]
                     | None \<Rightarrow> m_pendingCallbacks s)\<rparr>))))"

subsection \<open>\<^verbatim>\<open>HttpClient::Update\<close> (\<^verbatim>\<open>HttpClient.cpp\<close>, lines 263 to 342)\<close>

text \<open>
  \<open>Update_callbacks p cbs s\<close> is the loop of lines 285 to 292 over \<^verbatim>\<open>m_pendingCallbacks\<close>: it
  calls and erases every callback registered for \<open>p\<close> and returns the callbacks that stay.
\<close>

fun Update_callbacks ::
  "nat \<Rightarrow> (nat \<times> HttpCallbackBase) list \<Rightarrow> 'j program \<Rightarrow> (nat \<times> HttpCallbackBase) list \<times> 'j program" where
  "Update_callbacks p [] s = ([], s)"
| "Update_callbacks p ((q, cb) # rest) s =
     (if q = p then Update_callbacks p rest (Call cb p s)
      else (let (rest', s') = Update_callbacks p rest s in ((q, cb) # rest', s')))"

definition Update_callbacks_all :: "nat \<Rightarrow> 'j program \<Rightarrow> 'j program" where
  "Update_callbacks_all p s =
     (let fired = Update_callbacks p (m_pendingCallbacks s) s
      in (snd fired)\<lparr>m_pendingCallbacks := fst fired\<rparr>)"

text \<open>
  \<open>Update_worker env i (p_free_worker, s)\<close> is one turn of the loop of lines 267 to 304, for
  worker \<open>i\<close>; \<open>p_free_worker\<close> is the index of the worker the pointer of that name refers to.
  The call of \<^verbatim>\<open>HandleResponse\<close> at line 283 is recorded in \<open>handled\<close>, with the two
  arguments it passes.
\<close>

definition Update_worker ::
  "'j env \<Rightarrow> nat \<Rightarrow> nat option \<times> 'j program \<Rightarrow> exn + (nat option \<times> 'j program)" where
  "Update_worker env i st =
     (let p_free_worker = fst st; s = snd st; worker = m_workers s ! i in
      if status worker = ACTIVE then
        on_ok (deref s (pRequest worker)) (\<lambda>(a, r).
          if m_status r = SENDING \<and> responseHeadersDone worker then
            on_ok (HandleResponseHeaders (pResponseHeaders worker) r) (\<lambda>r'.
              Inr (p_free_worker, store a r' s))
          else Inr (p_free_worker, s))
      else if status worker = WORKER_DONE then
        on_ok (deref s (pRequest worker)) (\<lambda>(a, r).
        on_ok (if m_status r = SENDING
               then HandleResponseHeaders (pResponseHeaders worker) r else Inr r) (\<lambda>r1.
        (let success = (result worker = CURLE_OK \<and> responseStatusCode worker < 400);
             httpStatusCode = responseStatusCode worker in
         on_ok (HandleResponse env success httpStatusCode r1) (\<lambda>r2.
           Inr (p_free_worker,
                set_worker i (WakeToStatus CLEANUP)
                  (Update_callbacks_all a
                     (store a r2 (s\<lparr>handled := handled s @ [(a, success, httpStatusCode)]\<rparr>))))))))
      else if status worker = CLEANUP then Inr (p_free_worker, s)
      else
        Inr (if p_free_worker = None then Some i else p_free_worker,
             if pRequest worker \<noteq> None then set_worker i (\<lambda>w. w\<lparr>pRequest := None\<rparr>) s else s))"

fun Update_loop ::
  "'j env \<Rightarrow> nat list \<Rightarrow> nat option \<times> 'j program \<Rightarrow> exn + (nat option \<times> 'j program)" where
  "Update_loop env [] st = Inr st"
| "Update_loop env (i # is) st =
     (case Update_worker env i st of
        Inl e \<Rightarrow> Inl e
      | Inr st' \<Rightarrow> Update_loop env is st')"

text \<open>
  \<open>Update_dispatch\<close> is the rest of \<^verbatim>\<open>Update\<close>, lines 306 to 341. When \<^verbatim>\<open>pthread_create\<close>
  fails the function throws; the state it leaves behind is not followed further.
\<close>

definition Update_dispatch :: "'j env \<Rightarrow> nat option \<Rightarrow> 'j program \<Rightarrow> exn + 'j program" where
  "Update_dispatch env p_free_worker s1 =
     (case p_free_worker of
        None \<Rightarrow> Inr s1
      | Some i \<Rightarrow>
          if m_pendingRequests s1 = [] then Inr s1
          else
            (let p_request = hd (m_pendingRequests s1);
                 s2 = s1\<lparr>m_pendingRequests := tl (m_pendingRequests s1)\<rparr>
             in on_ok (deref s2 (Some p_request)) (\<lambda>(a, r).
                  if m_status r = PENDING then
                    (let s3 = set_worker i (\<lambda>w. w\<lparr>pRequest := Some a\<rparr>) s2 in
                     on_ok (HandleRequestStart r) (\<lambda>r'.
                       (let s4 = store a r' s3; w = m_workers s4 ! i in
                        if status w = UNUSED then
                          IwAssert (\<not> pCurl w)
                            (if pthread_create_ok env
                             then Inr (set_worker i (\<lambda>w. w\<lparr>status := ACTIVE\<rparr>) s4)
                             else Inl (runtime_error ''Unable to spawn a new HttpClient worker thread.''))
                        else
                          IwAssert (status w = READY)
                            (Inr (set_worker i (WakeToStatus ACTIVE) s4)))))
                  else IwAssert (m_status r = CANCELLED) (Inr s2))))"

definition Update :: "'j env \<Rightarrow> 'j program \<Rightarrow> exn + 'j program" where
  "Update env s =
     on_ok (Update_loop env [0..<length (m_workers s)] (None, s))
       (\<lambda>(p_free_worker, s1). Update_dispatch env p_free_worker s1)"

subsection \<open>\<^verbatim>\<open>HttpDownloader::DownloadFile\<close> (\<^verbatim>\<open>HttpDownloader.h\<close>, lines 17 to 24)\<close>

definition DownloadFile :: "'j env \<Rightarrow> string \<Rightarrow> string \<Rightarrow> 'j program \<Rightarrow> exn + (nat \<times> 'j program)" where
  "DownloadFile env url destFile s =
     (case map_of (m_activeDownloads s) url of
        Some a \<Rightarrow> Inr (a, s)
      | None \<Rightarrow>
          on_ok (HttpDownload env url destFile (calls s)) (\<lambda>(obj, calls').
            (let p_request = next_object s;
                 s1 = s\<lparr>objects := (objects s)(p_request \<mapsto> obj),
                        next_object := Suc p_request, calls := calls'\<rparr>
             in on_ok (QueueRequest env p_request (Some HttpCallback_HandleDownloadDone) s1) (\<lambda>s2.
                  Inr (p_request,
                       s2\<lparr>m_activeDownloads := map_assign url p_request (m_activeDownloads s2)\<rparr>)))))"

section \<open>Runs of the program\<close>

text \<open>
  The application thread and the worker threads interleave; every event below is one atomic
  step. The application uses the downloader through \<^verbatim>\<open>DownloadFile\<close> and \<^verbatim>\<open>Update\<close>, may call
  \<^verbatim>\<open>Cancel\<close> on a request it holds, and its destructor calls \<^verbatim>\<open>CancelAndQuit\<close> on the workers
  that have a thread. libcurl may invoke any callback, with any arguments, while the worker is
  \<open>ACTIVE\<close>, and may end the transfer with any result.
\<close>

datatype event =
    App_DownloadFile string string
  | App_Update
  | App_Cancel nat
  | App_CancelAndQuit nat
  | Thread_begin nat
  | Thread_WriteCallback nat string size_t size_t
  | Thread_ReadCallback nat size_t size_t
  | Thread_HeaderCallback nat string size_t size_t
  | Thread_ProgressCallback nat double double double double
  | Thread_performed nat CURLcode int
  | Thread_cleanup nat
  | Thread_quit nat

definition transferring :: "nat \<Rightarrow> 'j program \<Rightarrow> bool" where
  "transferring i s =
     (i < length (m_workers s) \<and> status (m_workers s ! i) = ACTIVE \<and> pCurl (m_workers s ! i))"

fun enabled :: "event \<Rightarrow> 'j program \<Rightarrow> bool" where
  "enabled (App_DownloadFile url destFile) s = True"
| "enabled App_Update s = True"
| "enabled (App_Cancel a) s = (objects s a \<noteq> None)"
| "enabled (App_CancelAndQuit i) s = (i < length (m_workers s) \<and> status (m_workers s ! i) \<noteq> UNUSED)"
| "enabled (Thread_begin i) s =
     (i < length (m_workers s) \<and> status (m_workers s ! i) = ACTIVE \<and> \<not> pCurl (m_workers s ! i)
      \<and> \<not> cancelAndQuit (m_workers s ! i))"
| "enabled (Thread_WriteCallback i contents size' nmemb) s = transferring i s"
| "enabled (Thread_ReadCallback i size' nmemb) s = transferring i s"
| "enabled (Thread_HeaderCallback i pHeader size' nmemb) s = transferring i s"
| "enabled (Thread_ProgressCallback i dltotal dlnow ultotal ulnow) s = transferring i s"
| "enabled (Thread_performed i res code) s = transferring i s"
| "enabled (Thread_cleanup i) s =
     (i < length (m_workers s) \<and> status (m_workers s ! i) = CLEANUP \<and> pCurl (m_workers s ! i))"
| "enabled (Thread_quit i) s =
     (i < length (m_workers s) \<and> status (m_workers s ! i) = READY \<and> pCurl (m_workers s ! i)
      \<and> cancelAndQuit (m_workers s ! i))"

fun exec :: "'j env \<Rightarrow> event \<Rightarrow> 'j program \<Rightarrow> exn + 'j program" where
  "exec env (App_DownloadFile url destFile) s =
     on_ok (DownloadFile env url destFile s) (\<lambda>(a, s'). Inr s')"
| "exec env App_Update s = Update env s"
| "exec env (App_Cancel a) s = on_ok (deref s (Some a)) (\<lambda>(a, r). Inr (store a (Cancel r) s))"
| "exec env (App_CancelAndQuit i) s = Inr (set_worker i CancelAndQuit s)"
| "exec env (Thread_begin i) s = Inr (WorkerThread_begin i s)"
| "exec env (Thread_WriteCallback i contents size' nmemb) s =
     on_ok (HttpClient_WorkerThread_WriteCallback env contents size' nmemb i s) (\<lambda>(n, s'). Inr s')"
| "exec env (Thread_ReadCallback i size' nmemb) s =
     on_ok (HttpClient_WorkerThread_ReadCallback env size' nmemb i s) (\<lambda>(n, data, s'). Inr s')"
| "exec env (Thread_HeaderCallback i pHeader size' nmemb) s =
     Inr (snd (HttpClient_WorkerThread_HeaderCallback pHeader size' nmemb i s))"
| "exec env (Thread_ProgressCallback i dltotal dlnow ultotal ulnow) s =
     on_ok (HttpClient_WorkerThread_ProgressCallback dltotal dlnow ultotal ulnow i s) (\<lambda>(n, s'). Inr s')"
| "exec env (Thread_performed i res code) s = WorkerThread_performed res code i s"
| "exec env (Thread_cleanup i) s = WorkerThread_cleanup i s"
| "exec env (Thread_quit i) s = Inr (WorkerThread_quit i s)"

inductive reachable :: "nat \<Rightarrow> 'j program \<Rightarrow> bool" for numWorkers :: nat where
  reachable_init: "reachable numWorkers (HttpDownloader numWorkers)"
| reachable_step:
    "reachable numWorkers s \<Longrightarrow> enabled e s \<Longrightarrow> exec env e s = Inr s' \<Longrightarrow> reachable numWorkers s'"

section \<open>Observations used in the statements\<close>

text \<open>
  \<open>response_data\<close>, \<open>response_buffer\<close> and \<open>response_size\<close> read the members
  \<^verbatim>\<open>m_responseData\<close>, \<^verbatim>\<open>m_workerResponseBuffer\<close> and \<^verbatim>\<open>m_workerResponseSize\<close> of
  \<^verbatim>\<open>HttpPost\<close> and \<^verbatim>\<open>YoutubeUploadRequest\<close>. An \<^verbatim>\<open>HttpDownload\<close> has none of them.
\<close>

definition response_data :: "'j HttpRequest \<Rightarrow> 'j UnknownElement option" where
  "response_data r =
     (case sub r of
        HttpDownload_obj d \<Rightarrow> None
      | HttpPost_obj p ext \<Rightarrow> Some (m_responseData p)
      | YoutubeUploadRequest_obj y \<Rightarrow> Some (yt_responseData y))"

definition response_buffer :: "'j HttpRequest \<Rightarrow> string option" where
  "response_buffer r =
     (case sub r of
        HttpDownload_obj d \<Rightarrow> None
      | HttpPost_obj p ext \<Rightarrow> m_workerResponseBuffer p
      | YoutubeUploadRequest_obj y \<Rightarrow> yt_workerResponseBuffer y)"

definition response_size :: "'j HttpRequest \<Rightarrow> size_t" where
  "response_size r =
     (case sub r of
        HttpDownload_obj d \<Rightarrow> 0
      | HttpPost_obj p ext \<Rightarrow> m_workerResponseSize p
      | YoutubeUploadRequest_obj y \<Rightarrow> yt_workerResponseSize y)"

text \<open>\<open>handled_of a s\<close>: the invocations of \<^verbatim>\<open>HandleResponse\<close> on the request \<open>a\<close>, oldest first.\<close>

definition handled_of :: "nat \<Rightarrow> 'j program \<Rightarrow> (nat \<times> bool \<times> int) list" where
  "handled_of a s = filter (\<lambda>x. fst x = a) (handled s)"

text \<open>\<open>flags s\<close>: the cancellation flag of every worker, in the order of \<^verbatim>\<open>m_workers\<close>.\<close>

definition flags :: "'j program \<Rightarrow> bool list" where
  "flags s = map cancelAndQuit (m_workers s)"

text \<open>
  A worker is free when \<^verbatim>\<open>Update\<close> may give it a request, busy while it holds one that the
  application has not finished with. \<open>first_free\<close> is the free worker of lowest index.
  \<open>after_Update_loop w\<close> is worker \<open>w\<close> after the loop of \<^verbatim>\<open>Update\<close> has passed it.
\<close>

definition is_free :: "Worker \<Rightarrow> bool" where
  "is_free w = (status w = UNUSED \<or> status w = READY)"

definition busy :: "Worker \<Rightarrow> bool" where
  "busy w = (status w = ACTIVE \<or> status w = WORKER_DONE)"

definition first_free :: "Worker list \<Rightarrow> nat option" where
  "first_free ws = List.find (\<lambda>j. is_free (ws ! j)) [0..<length ws]"

definition after_Update_loop :: "Worker \<Rightarrow> Worker" where
  "after_Update_loop w =
     (if status w = WORKER_DONE then w\<lparr>status := CLEANUP\<rparr>
      else if is_free w then w\<lparr>pRequest := None\<rparr>
      else w)"

text \<open>
  \<open>terminal r\<close>: the transfer of \<open>r\<close> has completed, with success (\<open>DONE\<close>) or failure
  (\<open>ERROR\<close>). \<open>downloader_inv\<close> is the invariant of the downloader: the active downloads have
  distinct keys and distinct requests, and each of them is an allocated request that has not
  completed and for which the downloader's callback is registered; every allocated address
  is below \<open>next_object\<close>.
\<close>

definition terminal :: "'j HttpRequest \<Rightarrow> bool" where
  "terminal r = (m_status r = DONE \<or> m_status r = ERROR)"

definition downloader_inv :: "'j program \<Rightarrow> bool" where
  "downloader_inv s =
     (distinct (map fst (m_activeDownloads s)) \<and> distinct (map snd (m_activeDownloads s))
      \<and> (\<forall>e\<in>set (m_activeDownloads s).
            (snd e, HttpCallback_HandleDownloadDone) \<in> set (m_pendingCallbacks s)
            \<and> (\<exists>r. objects s (snd e) = Some r \<and> \<not> terminal r))
      \<and> (\<forall>a. objects s a \<noteq> None \<longrightarrow> a < next_object s))"

definition is_HttpDownload :: "'j HttpRequest \<Rightarrow> bool" where
  "is_HttpDownload r = (case sub r of HttpDownload_obj d \<Rightarrow> True | _ \<Rightarrow> False)"

text \<open>
  \<open>later r0 r\<close>: the object that was \<open>r0\<close> can be \<open>r\<close> after some sequence of calls of its
  methods, whatever the caller and the environment of each call.
\<close>

inductive later :: "'j HttpRequest \<Rightarrow> 'j HttpRequest \<Rightarrow> bool" for r0 :: "'j HttpRequest" where
  later_now: "later r0 r0"
| later_Cancel: "later r0 r \<Longrightarrow> later r0 (Cancel r)"
| later_SetHeader: "later r0 r \<Longrightarrow> SetHeader header v r = Inr r' \<Longrightarrow> later r0 r'"
| later_SetValue: "later r0 r \<Longrightarrow> later r0 (SetValue key v r)"
| later_SetPostData: "later r0 r \<Longrightarrow> SetPostData j r = Inr r' \<Longrightarrow> later r0 r'"
| later_CompileRequest: "later r0 r \<Longrightarrow> CompileRequest env r = Inr r' \<Longrightarrow> later r0 r'"
| later_HandleRequestStart: "later r0 r \<Longrightarrow> HandleRequestStart r = Inr r' \<Longrightarrow> later r0 r'"
| later_HandleResponseHeaders:
    "later r0 r \<Longrightarrow> HandleResponseHeaders pFirstHeader r = Inr r' \<Longrightarrow> later r0 r'"
| later_HandleResponse:
    "later r0 r \<Longrightarrow> HandleResponse env success httpStatusCode r = Inr r' \<Longrightarrow> later r0 r'"
| later_Worker_UpdateProgress:
    "later r0 r \<Longrightarrow> later r0 (Worker_UpdateProgress dltotal dlnow ultotal ulnow r)"
| later_Worker_HandleData:
    "later r0 r \<Longrightarrow> Worker_HandleData env contents size' r cs = Inr (n, r', cs') \<Longrightarrow> later r0 r'"
| later_Worker_HandleUpload:
    "later r0 r \<Longrightarrow> Worker_HandleUpload env fillSize r cs = Inr (n, data, r', cs') \<Longrightarrow> later r0 r'"
| later_Worker_HandleDone:
    "later r0 r \<Longrightarrow> Worker_HandleDone success httpStatusCode r cs = (r', cs') \<Longrightarrow> later r0 r'"
| later_Worker_HandleCleanup:
    "later r0 r \<Longrightarrow> Worker_HandleCleanup r cs = (r', cs') \<Longrightarrow> later r0 r'"

section \<open>Concrete inputs\<close>

text \<open>
  An environment in which every external call succeeds; the JSON reader accepts exactly the
  text \<^verbatim>\<open>{}\<close> and a tree is represented by its text.
\<close>

definition example_env :: "string env" where
  "example_env =
     \<lparr> char_signed = False,
       json_Read = (\<lambda>e s. if s = ''{}'' then Inr (json_Tree s) else Inl (''parse error'', e)),
       json_Write = (\<lambda>j. j),
       json_Object = ''{}'',
       IsDir = (\<lambda>path. True),
       MakeDirectory_ok = (\<lambda>path. True),
       s3eFileGetError = 0,
       FileOpen_ok = (\<lambda>path. True),
       FileRead_data = [],
       realloc_ok = True,
       uninitialised = (\<lambda>i. CHR 0x00),
       pthread_create_ok = True \<rparr>"

text \<open>The object that \<^verbatim>\<open>new HttpDownload("http://h/a", "a.bin")\<close> constructs.\<close>

definition example_download :: "string HttpRequest" where
  "example_download =
     \<lparr> m_method = GET, m_url = ''http://h/a'', m_status = PENDING,
       m_uploadBytesNow = 0, m_uploadBytesTotal = 0, m_downloadBytesNow = 0, m_downloadBytesTotal = 0,
       m_requestHeaders = [], m_responseHeaders = [],
       sub = HttpDownload_obj \<lparr>m_destFile = ''a.bin'', m_pTmpFile = None\<rparr> \<rparr>"

text \<open>An \<^verbatim>\<open>HttpPost\<close> whose headers have arrived and whose response body is still empty.\<close>

definition example_post :: "string HttpRequest" where
  "example_post =
     \<lparr> m_method = POST, m_url = ''http://h/api'', m_status = HEADERS,
       m_uploadBytesNow = 0, m_uploadBytesTotal = 0, m_downloadBytesNow = 0, m_downloadBytesTotal = 0,
       m_requestHeaders = [(''Content-Type'', ''application/x-www-form-urlencoded'')],
       m_responseHeaders = [],
       sub = HttpPost_obj \<lparr>m_data = [], m_postData = [], m_bytesUploaded = 0,
                           m_workerResponseBuffer = None, m_workerResponseSize = 0,
                           m_responseData = json_Null\<rparr> None \<rparr>"

text \<open>The same \<^verbatim>\<open>HttpPost\<close> after the worker has accumulated the response body \<open>body\<close>.\<close>

definition example_post_body :: "string \<Rightarrow> string HttpRequest" where
  "example_post_body body =
     \<lparr> m_method = POST, m_url = ''http://h/api'', m_status = HEADERS,
       m_uploadBytesNow = 0, m_uploadBytesTotal = 0, m_downloadBytesNow = 0, m_downloadBytesTotal = 0,
       m_requestHeaders = [(''Content-Type'', ''application/x-www-form-urlencoded'')],
       m_responseHeaders = [],
       sub = HttpPost_obj \<lparr>m_data = [], m_postData = [], m_bytesUploaded = 0,
                           m_workerResponseBuffer = Some body, m_workerResponseSize = length body,
                           m_responseData = json_Null\<rparr> None \<rparr>"

section \<open>What the transport engine takes as a request to stop\<close>

text \<open>
  Modelled from the spec: libcurl itself is not part of the repository. A body-write or
  header-line callback asks the engine to stop by returning a value that differs from the
  number of bytes it was given (``returning less than the full chunk is treated as a
  consumer-side abort''; \<^verbatim>\<open>HttpRequest.h\<close>: ``Should return value of "size" if
  successful''); an upload-read callback by returning \<^verbatim>\<open>CURL_READFUNC_ABORT\<close>; a progress
  callback by returning a non-zero value.
\<close>

definition write_aborts :: "size_t \<Rightarrow> size_t \<Rightarrow> size_t \<Rightarrow> bool" where
  "write_aborts size' nmemb returned = (returned \<noteq> size' * nmemb)"

definition read_aborts :: "size_t \<Rightarrow> bool" where
  "read_aborts returned = (returned = CURL_READFUNC_ABORT)"

definition progress_aborts :: "int \<Rightarrow> bool" where
  "progress_aborts returned = (returned \<noteq> 0)"

text \<open>
  A client with two workers, the first in the middle of the transfer of the example download
  and the second never used, and the same client after its destructor has called
  \<^verbatim>\<open>CancelAndQuit\<close> on the first worker.
\<close>

definition example_transfer :: "string program" where
  "example_transfer =
     \<lparr> objects = [0 \<mapsto> example_download\<lparr>m_status := SENDING\<rparr>], next_object = 1,
       m_workers = [\<lparr> pCurl = True, pRequest = Some 0, cancelAndQuit = False, status = ACTIVE,
                      responseHeadersDone = False, pResponseHeaders = [], result = CURLE_OK,
                      responseStatusCode = 0 \<rparr>,
                    HttpClient_Worker],
       m_pendingRequests = [], m_pendingCallbacks = [], m_activeDownloads = [],
       delivered = [], calls = [], handled = [] \<rparr>"

definition example_cancelled :: "string program" where
  "example_cancelled = set_worker 0 CancelAndQuit example_transfer"

text \<open>The client of \<open>example_transfer\<close> after the first body chunk, \<^verbatim>\<open>data\<close>, has been written.\<close>

definition example_receiving :: "string program" where
  "example_receiving =
     \<lparr> objects = [0 \<mapsto> example_download
                          \<lparr>m_status := SENDING,
                           sub := HttpDownload_obj \<lparr>m_destFile = ''a.bin'', m_pTmpFile = Some ''a.bin.tmp''\<rparr>\<rparr>],
       next_object = 1,
       m_workers = [\<lparr> pCurl = True, pRequest = Some 0, cancelAndQuit = False, status = ACTIVE,
                      responseHeadersDone = False, pResponseHeaders = [], result = CURLE_OK,
                      responseStatusCode = 0 \<rparr>,
                    HttpClient_Worker],
       m_pendingRequests = [], m_pendingCallbacks = [], m_activeDownloads = [],
       delivered = [],
       calls = [s3eFileOpen ''a.bin.tmp'' ''w'', s3eFileWrite ''a.bin.tmp'' ''data''],
       handled = [] \<rparr>"

text \<open>
  A client with two workers, the first of which has ended the transfer of the example download
  with libcurl result \<open>res\<close> and HTTP status \<open>code\<close>, before the application's next call of
  \<^verbatim>\<open>Update\<close>.
\<close>

definition example_finished :: "CURLcode \<Rightarrow> int \<Rightarrow> string program" where
  "example_finished res code =
     \<lparr> objects = [0 \<mapsto> example_download\<lparr>m_status := SENDING\<rparr>], next_object = 1,
       m_workers = [\<lparr> pCurl = True, pRequest = Some 0, cancelAndQuit = False, status = WORKER_DONE,
                      responseHeadersDone = True, pResponseHeaders = [], result = res,
                      responseStatusCode = code \<rparr>,
                    HttpClient_Worker],
       m_pendingRequests = [], m_pendingCallbacks = [], m_activeDownloads = [],
       delivered = [], calls = [], handled = [] \<rparr>"

text \<open>A new client with two workers, to which two downloads have been submitted.\<close>

definition example_two_pending :: "string program" where
  "example_two_pending =
     \<lparr> objects = [0 \<mapsto> example_download, 1 \<mapsto> example_download\<lparr>m_url := ''http://h/b''\<rparr>],
       next_object = 2,
       m_workers = [HttpClient_Worker, HttpClient_Worker],
       m_pendingRequests = [0, 1], m_pendingCallbacks = [], m_activeDownloads = [],
       delivered = [], calls = [], handled = [] \<rparr>"

text \<open>
  The downloader with two workers after \<^verbatim>\<open>DownloadFile("http://h/a", "a.bin")\<close>, and the same
  after \<^verbatim>\<open>Update\<close> has given the request to worker 0 and the transfer has ended with HTTP
  status 404, before the next \<^verbatim>\<open>Update\<close>.
\<close>

definition example_queued :: "string program" where
  "example_queued =
     \<lparr> objects = [0 \<mapsto> example_download], next_object = 1,
       m_workers = [HttpClient_Worker, HttpClient_Worker],
       m_pendingRequests = [0], m_pendingCallbacks = [(0, HttpCallback_HandleDownloadDone)],
       m_activeDownloads = [(''http://h/a'', 0)],
       delivered = [], calls = [], handled = [] \<rparr>"

definition example_failed :: "string program" where
  "example_failed =
     example_queued
       \<lparr> objects := [0 \<mapsto> example_download\<lparr>m_status := SENDING\<rparr>],
         m_workers := [\<lparr> pCurl = True, pRequest = Some 0, cancelAndQuit = False, status = WORKER_DONE,
                          responseHeadersDone = False, pResponseHeaders = [], result = CURLE_OK,
                          responseStatusCode = 404 \<rparr>,
                       HttpClient_Worker],
         m_pendingRequests := [] \<rparr>"

text \<open>\<open>run env es s\<close>: the events \<open>es\<close> in turn, from state \<open>s\<close>, all in environment \<open>env\<close>.\<close>

fun run :: "'j env \<Rightarrow> event list \<Rightarrow> 'j program \<Rightarrow> exn + 'j program" where
  "run env [] s = Inr s"
| "run env (e # es) s =
     (case exec env e s of
        Inl x \<Rightarrow> Inl x
      | Inr s' \<Rightarrow> run env es s')"

text \<open>\<open>possible env es s\<close>: every event of \<open>es\<close> is enabled when its turn comes and raises nothing.\<close>

fun possible :: "'j env \<Rightarrow> event list \<Rightarrow> 'j program \<Rightarrow> bool" where
  "possible env [] s = True"
| "possible env (e # es) s =
     (enabled e s \<and> (case exec env e s of Inl x \<Rightarrow> False | Inr s' \<Rightarrow> possible env es s'))"

section \<open>Basic facts\<close>

lemma on_ok_simps [simp]:
  "on_ok (Inr x) f = f x"
  "on_ok (Inl e) f = Inl e"
  by (simp_all add: on_ok_def)

lemma on_ok_eq_Inr: "on_ok m f = Inr y \<longleftrightarrow> (\<exists>x. m = Inr x \<and> f x = Inr y)"
  by (cases m) simp_all

lemma IwAssert_simps [simp]:
  "IwAssert True k = k"
  "IwAssert False k = Inl AssertionFailure"
  by (simp_all add: IwAssert_def)

lemma IwAssert_eq_Inr: "IwAssert c k = Inr y \<longleftrightarrow> c \<and> k = Inr y"
  by (cases c) simp_all

section \<open>Percent-encoding\<close>

lemma put_hex_int_byte:
  assumes "n < 256"
  shows "put_hex_int (int n) = [hex_digit (n div 16), hex_digit (n mod 16)]"
proof -
  have m: "nat (int n mod 2 ^ 32) = n" using assms by simp
  show ?thesis
  proof (cases "n < 16")
    case True
    then show ?thesis by (simp add: put_hex_int_def m hex_digits.simps [of n] hex_digit_def)
  next
    case False
    then have "n div 16 < 16" using assms by simp
    then show ?thesis using False
      by (simp add: put_hex_int_def m hex_digits.simps [of n] hex_digits.simps [of "n div 16"])
  qed
qed

lemma int_of_char_plain:
  "(sg \<longrightarrow> (of_char c :: nat) < 128) \<Longrightarrow> int_of_char sg c = int (of_char c)"
  by (auto simp: int_of_char_def)

lemma of_char_less_256: "(of_char c :: nat) < 256"
  by (cases c) simp

lemma UrlEncode_loop_acc:
  "UrlEncode_loop sg strict v escaped
     = escaped @ concat (map (\<lambda>c. UrlEncode_loop sg strict [c] []) v)"
proof (induction v arbitrary: escaped)
  case Nil
  then show ?case by simp
next
  case (Cons c v)
  show ?case by (simp add: Cons.IH)
qed

lemma UrlEncode_byte:
  assumes "sg \<longrightarrow> (of_char c :: nat) < 128"
  shows "UrlEncode sg [c] strict = encode_byte strict c"
proof -
  have "put_hex_int (int_of_char sg c) = [hex_digit (of_char c div 16), hex_digit (of_char c mod 16)]"
    using assms by (simp add: int_of_char_plain put_hex_int_byte of_char_less_256)
  then show ?thesis by (simp add: UrlEncode_def encode_byte_def)
qed

text \<open>
  Claim C4, as the code has it. For every input string, \<^verbatim>\<open>UrlEncode\<close> encodes byte by byte:
  the result is the concatenation of the encodings of the bytes, each the same as when it is
  encoded alone. An alphanumeric character passes unescaped in both modes; \<^verbatim>\<open>-\<close>, \<^verbatim>\<open>_\<close> and
  \<^verbatim>\<open>.\<close> pass unescaped in the lenient mode only, and so does the space become \<^verbatim>\<open>+\<close> in the
  lenient mode only; every other byte becomes \<^verbatim>\<open>%\<close> followed by the two lowercase
  hexadecimal digits of its value. This rule holds for every byte where plain \<^verbatim>\<open>char\<close> is
  unsigned, and for every byte below 128 where it is signed.
\<close>

theorem C4_UrlEncode_bytes:
  "UrlEncode sg v strict = concat (map (\<lambda>c. UrlEncode sg [c] strict) v)
   \<and> (\<forall>c. (sg \<longrightarrow> (of_char c :: nat) < 128) \<longrightarrow>
          UrlEncode sg [c] strict =
            (if isalnum c then [c]
             else if (c = CHR ''-'' \<or> c = CHR ''_'' \<or> c = CHR ''.'') \<and> \<not> strict then [c]
             else if c = CHR '' '' \<and> \<not> strict then ''+''
             else [CHR ''%'', hex_digit (of_char c div 16), hex_digit (of_char c mod 16)]))"
proof -
  have "UrlEncode sg v strict = concat (map (\<lambda>c. UrlEncode sg [c] strict) v)"
    unfolding UrlEncode_def by (subst UrlEncode_loop_acc) simp
  moreover have "UrlEncode sg [c] strict =
            (if isalnum c then [c]
             else if (c = CHR ''-'' \<or> c = CHR ''_'' \<or> c = CHR ''.'') \<and> \<not> strict then [c]
             else if c = CHR '' '' \<and> \<not> strict then ''+''
             else [CHR ''%'', hex_digit (of_char c div 16), hex_digit (of_char c mod 16)])"
    if "sg \<longrightarrow> (of_char c :: nat) < 128" for c
    using UrlEncode_byte [OF that, of strict] by (simp add: encode_byte_def)
  ultimately show ?thesis by blast
qed

theorem C4_UrlEncode_bytes_witness:
  "UrlEncode True ''a b&c'' False = ''a+b%26c'' \<and> UrlEncode True ''a b&c'' True = ''a%20b%26c''
   \<and> UrlEncode True [CHR ''a'', CHR 0xE9, CHR '' ''] True
       = ''a'' @ UrlEncode True [CHR 0xE9] True @ ''%20''"
  using C4_UrlEncode_bytes [of True "''a b&c''" False] C4_UrlEncode_bytes [of True "''a b&c''" True]
    C4_UrlEncode_bytes [of True "[CHR ''a'', CHR 0xE9, CHR '' '']" True]
  by (simp add: isalnum_def hex_digit_def)

text \<open>
  Claim C4 as stated fails in the strict mode on \<^verbatim>\<open>-\<close>, and in both modes on a byte whose
  hexadecimal digits include a letter: \<^verbatim>\<open>-/\<close> becomes \<^verbatim>\<open>%2d%2f\<close>, where the stated rule
  gives \<^verbatim>\<open>-%2F\<close>.
\<close>

theorem C4_counterexample:
  "UrlEncode False ''-/'' True = ''%2d%2f'' \<and> spec_UrlEncode ''-/'' True = ''-%2F''
   \<and> UrlEncode False ''-/'' True \<noteq> spec_UrlEncode ''-/'' True"
  by (simp add: UrlEncode_def spec_UrlEncode_def spec_encode_byte_def isalnum_def put_hex_int_def
      int_of_char_def hex_digits.simps hex_digit_def HEX_DIGIT_def)


section \<open>Final response handling\<close>

lemma HttpRequest_HandleResponse_eq_Inr:
  "HttpRequest_HandleResponse success code r = Inr r' \<longleftrightarrow>
   m_status r = HEADERS \<and> r' = r\<lparr>m_status := (if success then DONE else ERROR)\<rparr>"
  by (auto simp: HttpRequest_HandleResponse_def IwAssert_eq_Inr)

lemma HttpRequest_HandleResponse_simps:
  "m_status r = HEADERS \<Longrightarrow>
   HttpRequest_HandleResponse success code r = Inr (r\<lparr>m_status := (if success then DONE else ERROR)\<rparr>)"
  "m_status r \<noteq> HEADERS \<Longrightarrow> HttpRequest_HandleResponse success code r = Inl AssertionFailure"
  by (simp_all add: HttpRequest_HandleResponse_def)

lemma HttpPost_HandleResponse_status:
  assumes "HttpPost_HandleResponse env success code r p ext = Inr r'"
  shows "m_status r = HEADERS \<and> (m_status r' = DONE \<or> m_status r' = ERROR) \<and> (\<not> success \<longrightarrow> m_status r' = ERROR)"
proof (cases "m_status r = HEADERS")
  case False
  with assms show ?thesis
    by (simp add: HttpPost_HandleResponse_def HttpRequest_HandleResponse_simps)
next
  case True
  show ?thesis
  proof (cases "std_string_n (m_workerResponseBuffer p) (m_workerResponseSize p)")
    case (Inl e)
    with assms True show ?thesis
      by (simp add: HttpPost_HandleResponse_def HttpRequest_HandleResponse_simps)
  next
    case (Inr response)
    with assms True show ?thesis
      by (auto simp: HttpPost_HandleResponse_def HttpRequest_HandleResponse_simps
          split: if_splits sum.splits prod.splits)
  qed
qed

lemma YoutubeUploadRequest_HandleResponse_status:
  assumes "YoutubeUploadRequest_HandleResponse env success code r y = Inr r'"
  shows "m_status r = HEADERS \<and> (m_status r' = DONE \<or> m_status r' = ERROR) \<and> (\<not> success \<longrightarrow> m_status r' = ERROR)"
proof (cases "m_status r = HEADERS")
  case False
  with assms show ?thesis
    by (simp add: YoutubeUploadRequest_HandleResponse_def HttpRequest_HandleResponse_simps)
next
  case True
  show ?thesis
  proof (cases "std_string_n (yt_workerResponseBuffer y) (yt_workerResponseSize y)")
    case (Inl e)
    with assms True show ?thesis
      by (simp add: YoutubeUploadRequest_HandleResponse_def HttpRequest_HandleResponse_simps)
  next
    case (Inr response)
    with assms True show ?thesis
      by (auto simp: YoutubeUploadRequest_HandleResponse_def HttpRequest_HandleResponse_simps
          split: if_splits sum.splits prod.splits)
  qed
qed

lemma HandleResponse_status:
  assumes "HandleResponse env success code r = Inr r'"
  shows "m_status r = HEADERS \<and> (m_status r' = DONE \<or> m_status r' = ERROR) \<and> (\<not> success \<longrightarrow> m_status r' = ERROR)"
proof (cases "sub r")
  case (HttpDownload_obj d)
  with assms show ?thesis
    by (auto simp: HandleResponse_def HttpRequest_HandleResponse_eq_Inr)
next
  case (HttpPost_obj p ext)
  with assms show ?thesis
    using HttpPost_HandleResponse_status [of env success code r p ext r']
    by (simp add: HandleResponse_def)
next
  case (YoutubeUploadRequest_obj y)
  with assms show ?thesis
    using YoutubeUploadRequest_HandleResponse_status [of env success code r y r']
    by (simp add: HandleResponse_def)
qed

section \<open>\<^verbatim>\<open>HttpDownload\<close>: construction\<close>

lemma HttpDownload_eq_Inr:
  assumes "HttpDownload env url destFile calls0 = Inr (r, calls1)"
  shows "r = (HttpRequest_new GET url (HttpDownload_obj \<lparr>m_destFile = destFile, m_pTmpFile = None\<rparr>))\<lparr>m_status := PENDING\<rparr>"
  using assms by (auto simp: HttpDownload_def Let_def on_ok_eq_Inr)

lemma later_download_inv:
  assumes "later r0 r" and "is_HttpDownload r0" and "m_status r0 \<noteq> BUILDING"
  shows "is_HttpDownload r \<and> m_status r \<noteq> BUILDING"
  using assms
proof (induction rule: later.induct)
  case later_now
  then show ?case by simp
next
  case (later_Cancel r)
  then show ?case by (simp add: Cancel_def is_HttpDownload_def)
next
  case (later_SetHeader r header v r')
  then show ?case by (simp add: SetHeader_def)
next
  case (later_SetValue r key v)
  then show ?case by (auto simp: SetValue_def is_HttpDownload_def split: derived.splits)
next
  case (later_SetPostData r j r')
  then show ?case by (auto simp: SetPostData_def is_HttpDownload_def split: derived.splits)
next
  case (later_CompileRequest r env r')
  then show ?case
    by (auto simp: CompileRequest_def HttpRequest_CompileRequest_def is_HttpDownload_def split: derived.splits)
next
  case (later_HandleRequestStart r r')
  then show ?case by (auto simp: HandleRequestStart_def IwAssert_eq_Inr is_HttpDownload_def)
next
  case (later_HandleResponseHeaders r pFirstHeader r')
  then show ?case by (auto simp: HandleResponseHeaders_def IwAssert_eq_Inr is_HttpDownload_def)
next
  case (later_HandleResponse r env success httpStatusCode r')
  then show ?case
    by (auto simp: HandleResponse_def HttpRequest_HandleResponse_eq_Inr is_HttpDownload_def split: derived.splits)
next
  case (later_Worker_UpdateProgress r dltotal dlnow ultotal ulnow)
  then show ?case by (simp add: Worker_UpdateProgress_def is_HttpDownload_def)
next
  case (later_Worker_HandleData r env contents size' cs n r' cs')
  then show ?case
    by (auto simp: Worker_HandleData_def on_ok_eq_Inr is_HttpDownload_def split: derived.splits)
next
  case (later_Worker_HandleUpload r env fillSize cs n data r' cs')
  then show ?case
    by (auto simp: Worker_HandleUpload_def is_HttpDownload_def split: derived.splits)
next
  case (later_Worker_HandleDone r success httpStatusCode cs r' cs')
  then show ?case
    by (auto simp: Worker_HandleDone_def is_HttpDownload_def split: derived.splits prod.splits)
next
  case (later_Worker_HandleCleanup r cs r' cs')
  then show ?case
    by (auto simp: Worker_HandleCleanup_def is_HttpDownload_def split: derived.splits)
qed

lemma store_same: "objects s a = Some r \<Longrightarrow> store a r s = s"
  by (simp add: store_def map_upd_triv)

text \<open>
  Claim C9. An \<^verbatim>\<open>HttpDownload\<close> is \<open>PENDING\<close> when its constructor returns, and whatever
  methods are called on it afterwards it is never \<open>BUILDING\<close>: \<^verbatim>\<open>SetHeader\<close> and
  \<^verbatim>\<open>CompileRequest\<close> fail their assertion on it in every later state, and
  \<^verbatim>\<open>QueueRequest\<close> queues the object as it is, without compiling it (it only asserts that the
  object is \<open>PENDING\<close>).
\<close>

theorem C9_download_never_building:
  assumes "HttpDownload env0 url destFile calls0 = Inr (r0, calls1)" and "later r0 r"
  shows "m_status r0 = PENDING \<and> m_status r \<noteq> BUILDING
         \<and> SetHeader header v r = Inl AssertionFailure
         \<and> CompileRequest env r = Inl AssertionFailure
         \<and> (objects s a = Some r \<longrightarrow>
              QueueRequest env a pCallback s =
                IwAssert (m_status r = PENDING)
                  (Inr (s\<lparr>m_pendingRequests := m_pendingRequests s @ [a],
                          m_pendingCallbacks :=
                            (case pCallback of
                               Some cb \<Rightarrow> m_pendingCallbacks s @ [(a, cb)]
                             | None \<Rightarrow> m_pendingCallbacks s)\<rparr>)))"
proof -
  have r0: "m_status r0 = PENDING" "is_HttpDownload r0"
    using HttpDownload_eq_Inr [OF assms(1)] by (simp_all add: is_HttpDownload_def HttpRequest_new_def)
  then have inv: "is_HttpDownload r" "m_status r \<noteq> BUILDING"
    using later_download_inv [OF assms(2)] by simp_all
  have c: "CompileRequest env r = Inl AssertionFailure"
    using inv by (auto simp: CompileRequest_def HttpRequest_CompileRequest_def is_HttpDownload_def
        split: derived.splits)
  have q: "objects s a = Some r \<longrightarrow>
              QueueRequest env a pCallback s =
                IwAssert (m_status r = PENDING)
                  (Inr (s\<lparr>m_pendingRequests := m_pendingRequests s @ [a],
                          m_pendingCallbacks :=
                            (case pCallback of
                               Some cb \<Rightarrow> m_pendingCallbacks s @ [(a, cb)]
                             | None \<Rightarrow> m_pendingCallbacks s)\<rparr>))"
    using inv by (simp add: QueueRequest_def deref_def store_same)
  show ?thesis using r0 inv c q by (simp add: SetHeader_def)
qed

lemma example_download_constructed:
  "HttpDownload example_env ''http://h/a'' ''a.bin'' [] = Inr (example_download, [])"
  by (simp add: HttpDownload_def example_env_def example_download_def HttpRequest_new_def DirName_def c_str_def)

theorem C9_download_never_building_witness:
  "m_status example_download = PENDING
   \<and> SetHeader ''Accept'' ''*'' (Cancel example_download) = Inl AssertionFailure
   \<and> CompileRequest example_env (Cancel example_download) = Inl AssertionFailure
   \<and> QueueRequest example_env 0 None (store 0 example_download (HttpDownloader 1)) =
       Inr ((store 0 example_download (HttpDownloader 1))\<lparr>m_pendingRequests := [0]\<rparr>)"
proof -
  have o: "objects (store 0 example_download (HttpDownloader 1)) 0 = Some example_download"
    by (simp add: store_def)
  have p: "m_status example_download = PENDING"
    by (simp add: example_download_def)
  show ?thesis
    using C9_download_never_building [OF example_download_constructed later_Cancel [OF later_now],
        of "''Accept''" "''*''" example_env]
      C9_download_never_building [OF example_download_constructed later_now,
        of "''Accept''" "''*''" example_env "store 0 example_download (HttpDownloader 1)" 0 None]
      o p
    by (simp add: store_def HttpDownloader_def)
qed


lemma MakePath_loop_FileOpen_ok:
  "MakePath_loop (env\<lparr>FileOpen_ok := f\<rparr>) parts sub_path cs = MakePath_loop env parts sub_path cs"
  by (induction parts arbitrary: sub_path cs) (simp_all add: Let_def)

lemma MakePath_loop_calls:
  "MakePath_loop env parts sub_path cs = Inr cs' \<Longrightarrow> \<exists>dirs. cs' = cs @ map s3eFileMakeDirectory dirs"
proof (induction parts arbitrary: sub_path cs)
  case Nil
  then show ?case by simp
next
  case (Cons part parts)
  show ?case
  proof (cases "length part = 0")
    case True
    with Cons show ?thesis by simp
  next
    case False
    let ?sp = "sub_path @ part @ ''/''"
    show ?thesis
    proof (cases "IsDir env (c_str ?sp)")
      case True
      with False Cons.prems Cons.IH [of ?sp cs] show ?thesis by (simp add: Let_def)
    next
      case nd: False
      show ?thesis
      proof (cases "MakeDirectory_ok env (c_str ?sp)")
        case True
        with nd False Cons.prems
        have "MakePath_loop env parts ?sp (cs @ [s3eFileMakeDirectory (c_str ?sp)]) = Inr cs'"
          by (simp add: Let_def)
        from Cons.IH [OF this] obtain dirs
          where "cs' = (cs @ [s3eFileMakeDirectory (c_str ?sp)]) @ map s3eFileMakeDirectory dirs" ..
        then have "cs' = cs @ map s3eFileMakeDirectory (c_str ?sp # dirs)" by simp
        then show ?thesis ..
      next
        case False
        with nd \<open>length part \<noteq> 0\<close> Cons.prems show ?thesis by (simp add: Let_def)
      qed
    qed
  qed
qed

lemma MakePath_FileOpen_ok:
  "MakePath (env\<lparr>FileOpen_ok := f\<rparr>) uri cs = MakePath env uri cs"
  by (simp add: MakePath_def MakePath_loop_FileOpen_ok)

lemma HttpDownload_FileOpen_ok:
  "HttpDownload (env\<lparr>FileOpen_ok := f\<rparr>) url destFile cs = HttpDownload env url destFile cs"
  by (simp add: HttpDownload_def Let_def MakePath_FileOpen_ok)

lemma HttpDownload_calls:
  assumes "HttpDownload env url destFile cs = Inr (r, cs')"
  shows "\<exists>dirs. cs' = cs @ map s3eFileMakeDirectory dirs"
proof (cases "IsDir env (c_str (DirName destFile))")
  case True
  with assms have "cs' = cs @ map s3eFileMakeDirectory []" by (auto simp: HttpDownload_def Let_def)
  then show ?thesis ..
next
  case False
  with assms have "MakePath env (DirName destFile) cs = Inr cs'"
    by (auto simp: HttpDownload_def Let_def on_ok_eq_Inr)
  then show ?thesis
    using MakePath_loop_calls by (auto simp: MakePath_def Let_def)
qed

text \<open>
  Claim C6, as the code has it. The constructor of \<^verbatim>\<open>HttpDownload\<close> never opens the
  temporary file: its result does not depend on whether the file can be opened, and the only
  file-system calls it makes create directories. A temporary file that cannot be opened is
  reported during the transfer, when the first body chunk arrives: \<^verbatim>\<open>Worker_HandleData\<close>
  throws \<^verbatim>\<open>runtime_error\<close> there, without accepting the chunk.
\<close>

theorem C6_open_failure_surfaces_at_first_chunk:
  assumes "HttpDownload env url destFile calls0 = Inr (r, calls1)"
    and "\<not> FileOpen_ok env' (c_str (destFile @ ''.tmp''))"
  shows "HttpDownload (env\<lparr>FileOpen_ok := f\<rparr>) url destFile calls0 = Inr (r, calls1)
         \<and> (\<exists>dirs. calls1 = calls0 @ map s3eFileMakeDirectory dirs)
         \<and> Worker_HandleData env' contents size' r calls2 =
             Inl (runtime_error ''Unable to open file for downloading!'')"
proof -
  have r: "sub r = HttpDownload_obj \<lparr>m_destFile = destFile, m_pTmpFile = None\<rparr>"
    using HttpDownload_eq_Inr [OF assms(1)] by (simp add: HttpRequest_new_def)
  have w: "Worker_HandleData env' contents size' r calls2 =
             Inl (runtime_error ''Unable to open file for downloading!'')"
    using r assms(2) by (simp add: Worker_HandleData_def HttpDownload_Worker_HandleData_def Let_def)
  show ?thesis
    using assms(1) w HttpDownload_calls [OF assms(1)] by (simp add: HttpDownload_FileOpen_ok)
qed

text \<open>
  Claim C6 as stated fails: with a temporary file that cannot be opened, the construction of
  the download for \<^verbatim>\<open>a.bin\<close> still succeeds.
\<close>

theorem C6_counterexample:
  "\<not> FileOpen_ok (example_env\<lparr>FileOpen_ok := (\<lambda>path. False)\<rparr>) (c_str ''a.bin.tmp'')
   \<and> HttpDownload (example_env\<lparr>FileOpen_ok := (\<lambda>path. False)\<rparr>) ''http://h/a'' ''a.bin'' [] =
       Inr (example_download, [])"
  by (simp add: HttpDownload_def example_env_def example_download_def HttpRequest_new_def DirName_def c_str_def)

theorem C6_open_failure_surfaces_at_first_chunk_witness:
  "HttpDownload (example_env\<lparr>FileOpen_ok := (\<lambda>path. False)\<rparr>) ''http://h/a'' ''a.bin'' [] =
     Inr (example_download, [])
   \<and> Worker_HandleData (example_env\<lparr>FileOpen_ok := (\<lambda>path. False)\<rparr>) ''data'' 4 example_download [] =
     Inl (runtime_error ''Unable to open file for downloading!'')"
proof -
  have n: "\<not> FileOpen_ok (example_env\<lparr>FileOpen_ok := (\<lambda>path. False)\<rparr>) (c_str (''a.bin'' @ ''.tmp''))"
    by simp
  show ?thesis
    using C6_open_failure_surfaces_at_first_chunk [OF example_download_constructed n] by simp
qed

section \<open>\<^verbatim>\<open>HttpPost\<close>: the response body\<close>


text \<open>
  Claim C7, as the code has it. For an \<^verbatim>\<open>HttpPost\<close> or \<^verbatim>\<open>HttpPostJson\<close> whose transport
  result is OK and whose HTTP status is below 400, the final response handling leaves in the
  member \<^verbatim>\<open>m_responseData\<close>: the null value, with state \<open>DONE\<close>, for an empty response
  body; the result of the JSON reader, with state \<open>DONE\<close>, for a body that starts with \<^verbatim>\<open>[\<close>
  or \<^verbatim>\<open>{\<close>, and state \<open>ERROR\<close> when the reader throws; the body wrapped as a string value,
  with state \<open>DONE\<close>, for any other non-empty body.
\<close>

theorem C7_post_response_parsing:
  assumes "sub r = HttpPost_obj p ext" and "m_status r = HEADERS"
    and "std_string_n (m_workerResponseBuffer p) (m_workerResponseSize p) = Inr response"
    and "res = CURLE_OK" and "code < 400"
  shows "\<exists>r'. HandleResponse env (res = CURLE_OK \<and> code < 400) code r = Inr r'
          \<and> (if response = [] then m_status r' = DONE \<and> response_data r' = Some json_Null
              else if hd response = CHR ''['' \<or> hd response = CHR ''{'' then
                (case json_Read env (m_responseData p) response of
                   Inr e \<Rightarrow> m_status r' = DONE \<and> response_data r' = Some e
                 | Inl (what, e) \<Rightarrow> m_status r' = ERROR)
              else m_status r' = DONE \<and> response_data r' = Some (json_String response))"
  using assms
  by (auto simp: HandleResponse_def HttpPost_HandleResponse_def HttpRequest_HandleResponse_simps
      response_data_def split: sum.splits prod.splits)

theorem C7_post_response_parsing_witness:
  "HandleResponse example_env True 200 (example_post_body ''hello'') \<noteq> Inl AssertionFailure
   \<and> m_status (projr (HandleResponse example_env True 200 (example_post_body ''hello''))) = DONE
   \<and> response_data (projr (HandleResponse example_env True 200 (example_post_body ''hello'')))
       = Some (json_String ''hello'')
   \<and> m_status (projr (HandleResponse example_env True 200 (example_post_body ''{}''))) = DONE
   \<and> response_data (projr (HandleResponse example_env True 200 (example_post_body ''{}'')))
       = Some (json_Tree ''{}'')
   \<and> m_status (projr (HandleResponse example_env True 200 (example_post_body ''{oops''))) = ERROR"
proof -
  have s: "sub (example_post_body body) =
             HttpPost_obj \<lparr>m_data = [], m_postData = [], m_bytesUploaded = 0,
                           m_workerResponseBuffer = Some body, m_workerResponseSize = length body,
                           m_responseData = json_Null\<rparr> None"
    and h: "m_status (example_post_body body) = HEADERS" for body
    by (simp_all add: example_post_body_def)
  have b: "std_string_n (m_workerResponseBuffer \<lparr>m_data = [], m_postData = [], m_bytesUploaded = 0,
                           m_workerResponseBuffer = Some body, m_workerResponseSize = length body,
                           m_responseData = json_Null\<rparr>) (m_workerResponseSize \<lparr>m_data = [], m_postData = [], m_bytesUploaded = 0,
                           m_workerResponseBuffer = Some body, m_workerResponseSize = length body,
                           m_responseData = (json_Null :: string UnknownElement)\<rparr>) = Inr body" for body
    by (simp add: std_string_n_def)
  have c: "CURLE_OK = CURLE_OK" "(200::int) < 400" by simp_all
  show ?thesis
    using C7_post_response_parsing [OF s [of "''hello''"] h b c, where env = example_env]
      C7_post_response_parsing [OF s [of "''{}''"] h b c, where env = example_env]
      C7_post_response_parsing [OF s [of "''{oops''"] h b c, where env = example_env]
    by (auto simp: example_env_def)
qed

text \<open>
  Claim C7 as stated fails on the empty body, which does not start with \<^verbatim>\<open>{\<close> or \<^verbatim>\<open>[\<close>
  and is not wrapped as a string value: \<^verbatim>\<open>m_responseData\<close> is the null value.
\<close>

theorem C7_counterexample:
  "\<not> isl (HandleResponse example_env True 200 example_post)
   \<and> m_status (projr (HandleResponse example_env True 200 example_post)) = DONE
   \<and> response_data (projr (HandleResponse example_env True 200 example_post)) = Some json_Null
   \<and> response_data (projr (HandleResponse example_env True 200 example_post)) \<noteq> Some (json_String [])"
  by (simp add: HandleResponse_def HttpPost_HandleResponse_def HttpRequest_HandleResponse_def
      std_string_n_def example_post_def response_data_def)

section \<open>\<^verbatim>\<open>Worker_HandleData\<close> of the post classes\<close>

lemma realloc_length: "realloc env ptr n = Some b \<Longrightarrow> length b = n"
  by (auto simp: realloc_def Let_def split: if_splits)

lemma memcpy_at_chunk:
  "length b = off + n \<Longrightarrow> take n (drop off (memcpy_at b off src n)) = take n src"
  by (simp add: memcpy_at_def)

lemma uninitialised_buffer:
  "realloc_ok env \<Longrightarrow> m \<le> length src \<Longrightarrow>
   (case realloc env None (k + m) of
      None \<Rightarrow> None
    | Some b \<Rightarrow> Some (memcpy_at b k src m))
   = Some (map (uninitialised env) [0..<k] @ take m src)"
proof -
  assume ok: "realloc_ok env" and m: "m \<le> length src"
  have "take k (map (uninitialised env) [0..<k + m]) = map (uninitialised env) [0..<k]"
    by (simp add: take_map)
  with ok m show ?thesis by (simp add: realloc_def memcpy_at_def)
qed

lemma std_string_n_whole: "length b = n \<Longrightarrow> std_string_n (Some b) n = Inr b"
  by (simp add: std_string_n_def)

text \<open>
  Claim C10. For an \<^verbatim>\<open>HttpPost\<close>, an \<^verbatim>\<open>HttpPostJson\<close> and a \<^verbatim>\<open>YoutubeUploadRequest\<close>,
  \<^verbatim>\<open>Worker_HandleData\<close> returns the full size of every non-empty chunk and never throws.
  When \<^verbatim>\<open>realloc\<close> succeeds the chunk is appended to the buffer. When it fails the chunk is
  discarded, with whatever had been accumulated before: the buffer pointer becomes null and
  the accumulated size \<open>k\<close> stays as it was, yet the value returned is still the full chunk
  size, so the transfer goes on. When the next chunk arrives and \<^verbatim>\<open>realloc\<close> succeeds, the
  buffer is \<open>k\<close> uninitialised bytes followed by that chunk, and the final response handling
  of a successful transfer takes it for the body: unless its first byte is \<^verbatim>\<open>[\<close> or \<^verbatim>\<open>{\<close>
  the request ends in \<open>DONE\<close> with this body as a string value in \<^verbatim>\<open>m_responseData\<close>. When no
  chunk follows, the final response handling ends in \<open>DONE\<close> with the null value if nothing
  had been accumulated, and otherwise raises, for it reads \<open>k\<close> bytes through the null pointer.
\<close>

theorem C10_failed_realloc_discards_chunk:
  assumes "\<not> is_HttpDownload r" and "0 < n"
  shows "\<exists>r'. Worker_HandleData env contents n r cs = Inr (n, r', cs)
          \<and> m_status r' = m_status r
          \<and> (if realloc_ok env
              then response_size r' = response_size r + n
                   \<and> (\<exists>b. response_buffer r' = Some b
                          \<and> take n (drop (response_size r) b) = take n contents)
              else response_buffer r' = None
                   \<and> response_size r' = response_size r
                   \<and> (m_status r = HEADERS \<longrightarrow>
                        (if response_size r = 0
                         then \<exists>r''. HandleResponse env' True code r' = Inr r''
                                 \<and> m_status r'' = DONE \<and> response_data r'' = Some json_Null
                         else HandleResponse env' True code r' = Inl NullDereference))
                   \<and> (0 < m \<and> m \<le> length contents' \<and> realloc_ok env' \<longrightarrow>
                        (\<exists>r2 b. Worker_HandleData env' contents' m r' cs = Inr (m, r2, cs)
                            \<and> b = map (uninitialised env') [0..<response_size r] @ take m contents'
                            \<and> response_buffer r2 = Some b
                            \<and> response_size r2 = response_size r + m
                            \<and> (m_status r = HEADERS \<and> hd b \<noteq> CHR ''['' \<and> hd b \<noteq> CHR ''{'' \<longrightarrow>
                                 (\<exists>r3. HandleResponse env' True code r2 = Inr r3
                                     \<and> m_status r3 = DONE
                                     \<and> response_data r3 = Some (json_String b))))))"
proof (cases "sub r")
  case (HttpDownload_obj d)
  with assms show ?thesis by (simp add: is_HttpDownload_def)
next
  case (HttpPost_obj p ext)
  show ?thesis
  proof (cases "realloc env (m_workerResponseBuffer p) (m_workerResponseSize p + n)")
    case None
    then have no: "\<not> realloc_ok env" by (auto simp: realloc_def Let_def split: if_splits)
    let ?k = "m_workerResponseSize p"
    let ?r' = "r\<lparr>sub := HttpPost_obj (p\<lparr>m_workerResponseBuffer := None\<rparr>) ext\<rparr>"
    have w: "Worker_HandleData env contents n r cs = Inr (n, ?r', cs)"
      using None HttpPost_obj assms
      by (simp add: Worker_HandleData_def HttpPost_Worker_HandleData_def)
    have f: "m_status r = HEADERS \<longrightarrow>
               (if ?k = 0
                then \<exists>r''. HandleResponse env' True code ?r' = Inr r''
                        \<and> m_status r'' = DONE \<and> response_data r'' = Some json_Null
                else HandleResponse env' True code ?r' = Inl NullDereference)"
      by (simp add: HandleResponse_def HttpPost_HandleResponse_def
          HttpRequest_HandleResponse_simps std_string_n_def response_data_def)
    have g: "\<exists>r2 b. Worker_HandleData env' contents' m ?r' cs = Inr (m, r2, cs)
                \<and> b = map (uninitialised env') [0..<?k] @ take m contents'
                \<and> response_buffer r2 = Some b
                \<and> response_size r2 = ?k + m
                \<and> (m_status r = HEADERS \<and> hd b \<noteq> CHR ''['' \<and> hd b \<noteq> CHR ''{'' \<longrightarrow>
                     (\<exists>r3. HandleResponse env' True code r2 = Inr r3
                         \<and> m_status r3 = DONE
                         \<and> response_data r3 = Some (json_String b)))"
      if m: "0 < m" "m \<le> length contents'" "realloc_ok env'"
    proof -
      let ?b = "map (uninitialised env') [0..<?k] @ take m contents'"
      let ?r2 = "r\<lparr>sub := HttpPost_obj (p\<lparr>m_workerResponseBuffer := Some ?b,
                                              m_workerResponseSize := ?k + m\<rparr>) ext\<rparr>"
      have w2: "Worker_HandleData env' contents' m ?r' cs = Inr (m, ?r2, cs)"
        using m uninitialised_buffer [OF m(3) m(2), of ?k]
        by (simp add: Worker_HandleData_def HttpPost_Worker_HandleData_def split: option.splits)
      have l: "length ?b = ?k + m" using m by simp
      have ne: "?b \<noteq> []" using m by auto
      have h: "m_status r = HEADERS \<and> hd ?b \<noteq> CHR ''['' \<and> hd ?b \<noteq> CHR ''{'' \<longrightarrow>
                     (\<exists>r3. HandleResponse env' True code ?r2 = Inr r3
                         \<and> m_status r3 = DONE
                         \<and> response_data r3 = Some (json_String ?b))"
        using ne
        by (auto simp: HandleResponse_def HttpPost_HandleResponse_def
            HttpRequest_HandleResponse_simps std_string_n_whole [OF l] response_data_def)
      from w2 h show ?thesis by (simp add: response_buffer_def response_size_def)
    qed
    from w no f g HttpPost_obj show ?thesis
      by (simp add: response_buffer_def response_size_def)
  next
    case (Some b)
    then have ok: "realloc_ok env" by (auto simp: realloc_def Let_def split: if_splits)
    have "take n (drop (m_workerResponseSize p) (memcpy_at b (m_workerResponseSize p) contents n))
            = take n contents"
      using realloc_length [OF Some] by (rule memcpy_at_chunk)
    with Some ok HttpPost_obj assms show ?thesis
      by (simp add: Worker_HandleData_def HttpPost_Worker_HandleData_def response_buffer_def
          response_size_def)
  qed
next
  case (YoutubeUploadRequest_obj y)
  show ?thesis
  proof (cases "realloc env (yt_workerResponseBuffer y) (yt_workerResponseSize y + n)")
    case None
    then have no: "\<not> realloc_ok env" by (auto simp: realloc_def Let_def split: if_splits)
    let ?k = "yt_workerResponseSize y"
    let ?r' = "r\<lparr>sub := YoutubeUploadRequest_obj (y\<lparr>yt_workerResponseBuffer := None\<rparr>)\<rparr>"
    have w: "Worker_HandleData env contents n r cs = Inr (n, ?r', cs)"
      using None YoutubeUploadRequest_obj assms
      by (simp add: Worker_HandleData_def YoutubeUploadRequest_Worker_HandleData_def)
    have f: "m_status r = HEADERS \<longrightarrow>
               (if ?k = 0
                then \<exists>r''. HandleResponse env' True code ?r' = Inr r''
                        \<and> m_status r'' = DONE \<and> response_data r'' = Some json_Null
                else HandleResponse env' True code ?r' = Inl NullDereference)"
      by (simp add: HandleResponse_def YoutubeUploadRequest_HandleResponse_def
          HttpRequest_HandleResponse_simps std_string_n_def response_data_def)
    have g: "\<exists>r2 b. Worker_HandleData env' contents' m ?r' cs = Inr (m, r2, cs)
                \<and> b = map (uninitialised env') [0..<?k] @ take m contents'
                \<and> response_buffer r2 = Some b
                \<and> response_size r2 = ?k + m
                \<and> (m_status r = HEADERS \<and> hd b \<noteq> CHR ''['' \<and> hd b \<noteq> CHR ''{'' \<longrightarrow>
                     (\<exists>r3. HandleResponse env' True code r2 = Inr r3
                         \<and> m_status r3 = DONE
                         \<and> response_data r3 = Some (json_String b)))"
      if m: "0 < m" "m \<le> length contents'" "realloc_ok env'"
    proof -
      let ?b = "map (uninitialised env') [0..<?k] @ take m contents'"
      let ?r2 = "r\<lparr>sub := YoutubeUploadRequest_obj (y\<lparr>yt_workerResponseBuffer := Some ?b,
                                                         yt_workerResponseSize := ?k + m\<rparr>)\<rparr>"
      have w2: "Worker_HandleData env' contents' m ?r' cs = Inr (m, ?r2, cs)"
        using m uninitialised_buffer [OF m(3) m(2), of ?k]
        by (simp add: Worker_HandleData_def YoutubeUploadRequest_Worker_HandleData_def
            split: option.splits)
      have l: "length ?b = ?k + m" using m by simp
      have ne: "?b \<noteq> []" using m by auto
      have h: "m_status r = HEADERS \<and> hd ?b \<noteq> CHR ''['' \<and> hd ?b \<noteq> CHR ''{'' \<longrightarrow>
                     (\<exists>r3. HandleResponse env' True code ?r2 = Inr r3
                         \<and> m_status r3 = DONE
                         \<and> response_data r3 = Some (json_String ?b))"
        using ne
        by (auto simp: HandleResponse_def YoutubeUploadRequest_HandleResponse_def
            HttpRequest_HandleResponse_simps std_string_n_whole [OF l] response_data_def)
      from w2 h show ?thesis by (simp add: response_buffer_def response_size_def)
    qed
    from w no f g YoutubeUploadRequest_obj show ?thesis
      by (simp add: response_buffer_def response_size_def)
  next
    case (Some b)
    then have ok: "realloc_ok env" by (auto simp: realloc_def Let_def split: if_splits)
    have "take n (drop (yt_workerResponseSize y) (memcpy_at b (yt_workerResponseSize y) contents n))
            = take n contents"
      using realloc_length [OF Some] by (rule memcpy_at_chunk)
    with Some ok YoutubeUploadRequest_obj assms show ?thesis
      by (simp add: Worker_HandleData_def YoutubeUploadRequest_Worker_HandleData_def response_buffer_def
          response_size_def)
  qed
qed

theorem C10_failed_realloc_discards_chunk_witness:
  "fst (projr (Worker_HandleData (example_env\<lparr>realloc_ok := False\<rparr>) ''cd'' 2
                 (example_post_body ''ab'') [])) = 2
   \<and> response_buffer (fst (snd (projr (Worker_HandleData (example_env\<lparr>realloc_ok := False\<rparr>) ''cd'' 2
                 (example_post_body ''ab'') [])))) = None
   \<and> response_size (fst (snd (projr (Worker_HandleData (example_env\<lparr>realloc_ok := False\<rparr>) ''cd'' 2
                 (example_post_body ''ab'') [])))) = 2
   \<and> HandleResponse example_env True 200
        (fst (snd (projr (Worker_HandleData (example_env\<lparr>realloc_ok := False\<rparr>) ''cd'' 2
                 (example_post_body ''ab'') [])))) = Inl NullDereference
   \<and> response_buffer (fst (snd (projr (Worker_HandleData example_env ''ef'' 2
        (fst (snd (projr (Worker_HandleData (example_env\<lparr>realloc_ok := False\<rparr>) ''cd'' 2
                 (example_post_body ''ab'') [])))) []))))
       = Some [CHR 0x00, CHR 0x00, CHR ''e'', CHR ''f'']
   \<and> m_status (projr (HandleResponse example_env True 200
        (fst (snd (projr (Worker_HandleData example_env ''ef'' 2
          (fst (snd (projr (Worker_HandleData (example_env\<lparr>realloc_ok := False\<rparr>) ''cd'' 2
                 (example_post_body ''ab'') [])))) [])))))) = DONE
   \<and> response_data (projr (HandleResponse example_env True 200
        (fst (snd (projr (Worker_HandleData example_env ''ef'' 2
          (fst (snd (projr (Worker_HandleData (example_env\<lparr>realloc_ok := False\<rparr>) ''cd'' 2
                 (example_post_body ''ab'') [])))) [])))))) 
       = Some (json_String [CHR 0x00, CHR 0x00, CHR ''e'', CHR ''f''])"
proof -
  let ?r = "example_post_body ''ab''"
  let ?lost = "?r\<lparr>sub := HttpPost_obj \<lparr>m_data = [], m_postData = [], m_bytesUploaded = 0,
                           m_workerResponseBuffer = None, m_workerResponseSize = 2,
                           m_responseData = json_Null\<rparr> None\<rparr>"
  let ?next = "?r\<lparr>sub := HttpPost_obj \<lparr>m_data = [], m_postData = [], m_bytesUploaded = 0,
                           m_workerResponseBuffer = Some [CHR 0x00, CHR 0x00, CHR ''e'', CHR ''f''],
                           m_workerResponseSize = 4,
                           m_responseData = json_Null\<rparr> None\<rparr>"
  have d: "\<not> is_HttpDownload ?r" by (simp add: is_HttpDownload_def example_post_body_def)
  have n: "(0::nat) < 2" by simp
  have w1: "Worker_HandleData (example_env\<lparr>realloc_ok := False\<rparr>) ''cd'' 2 ?r [] = Inr (2, ?lost, [])"
    by (simp add: Worker_HandleData_def HttpPost_Worker_HandleData_def realloc_def
        example_post_body_def)
  have w2: "Worker_HandleData example_env ''ef'' 2 ?lost [] = Inr (2, ?next, [])"
    by (simp add: Worker_HandleData_def HttpPost_Worker_HandleData_def realloc_def memcpy_at_def
        example_post_body_def example_env_def upt_rec Let_def)
  have e: "\<not> realloc_ok (example_env\<lparr>realloc_ok := False\<rparr>)" "realloc_ok example_env"
    "uninitialised example_env = (\<lambda>i. CHR 0x00)"
    by (simp_all add: example_env_def)
  have s: "m_status ?r = HEADERS" "response_size ?r = 2"
    by (simp_all add: example_post_body_def response_size_def)
  show ?thesis
    using C10_failed_realloc_discards_chunk [OF d n, where env = "example_env\<lparr>realloc_ok := False\<rparr>"
        and contents = "''cd''" and cs = "[]" and env' = example_env and code = 200
        and m = 2 and contents' = "''ef''"]
    unfolding w1 w2 by (auto simp: w2 e s upt_rec)
qed

section \<open>What \<^verbatim>\<open>Update\<close> changes\<close>

lemma set_worker_fields [simp]:
  "objects (set_worker i f s) = objects s"
  "next_object (set_worker i f s) = next_object s"
  "m_workers (set_worker i f s) = (m_workers s)[i := f (m_workers s ! i)]"
  "m_pendingRequests (set_worker i f s) = m_pendingRequests s"
  "m_pendingCallbacks (set_worker i f s) = m_pendingCallbacks s"
  "m_activeDownloads (set_worker i f s) = m_activeDownloads s"
  "delivered (set_worker i f s) = delivered s"
  "calls (set_worker i f s) = calls s"
  "handled (set_worker i f s) = handled s"
  by (simp_all add: set_worker_def)

lemma store_fields [simp]:
  "objects (store a r s) = (objects s)(a \<mapsto> r)"
  "next_object (store a r s) = next_object s"
  "m_workers (store a r s) = m_workers s"
  "m_pendingRequests (store a r s) = m_pendingRequests s"
  "m_pendingCallbacks (store a r s) = m_pendingCallbacks s"
  "m_activeDownloads (store a r s) = m_activeDownloads s"
  "delivered (store a r s) = delivered s"
  "calls (store a r s) = calls s"
  "handled (store a r s) = handled s"
  by (simp_all add: store_def)

lemma Call_fields [simp]:
  "objects (Call cb p s) = objects s"
  "next_object (Call cb p s) = next_object s"
  "m_workers (Call cb p s) = m_workers s"
  "m_pendingRequests (Call cb p s) = m_pendingRequests s"
  "m_pendingCallbacks (Call cb p s) = m_pendingCallbacks s"
  "calls (Call cb p s) = calls s"
  "handled (Call cb p s) = handled s"
  by (simp_all add: Call_def HandleDownloadDone_def split: HttpCallbackBase.splits)

lemma Update_callbacks_fields:
  "Update_callbacks p cbs s = (cbs', s') \<Longrightarrow>
   objects s' = objects s \<and> next_object s' = next_object s \<and> m_workers s' = m_workers s
   \<and> m_pendingRequests s' = m_pendingRequests s \<and> m_pendingCallbacks s' = m_pendingCallbacks s
   \<and> calls s' = calls s \<and> handled s' = handled s"
proof (induction cbs arbitrary: s cbs' s')
  case Nil
  then show ?case by simp
next
  case (Cons qc cbs)
  obtain q cb where qc: "qc = (q, cb)" by (cases qc)
  show ?case
  proof (cases "q = p")
    case True
    with Cons.prems qc have "Update_callbacks p cbs (Call cb p s) = (cbs', s')" by simp
    from Cons.IH [OF this] show ?thesis by simp
  next
    case False
    obtain rest' s1 where r: "Update_callbacks p cbs s = (rest', s1)" by (cases "Update_callbacks p cbs s")
    with Cons.prems qc False have "s' = s1" by simp
    with Cons.IH [OF r] show ?thesis by simp
  qed
qed

lemma flags_set_worker:
  "cancelAndQuit (f (m_workers s ! i)) = cancelAndQuit (m_workers s ! i) \<Longrightarrow>
   flags (set_worker i f s) = flags s"
  by (cases "i < length (m_workers s)") (simp_all add: flags_def map_update list_update_same_conv list_update_beyond)

lemma flags_simps [simp]:
  "flags (store a r s) = flags s"
  "flags (s\<lparr>calls := c\<rparr>) = flags s"
  "flags (s\<lparr>m_pendingCallbacks := cbs\<rparr>) = flags s"
  "flags (s\<lparr>m_pendingRequests := q\<rparr>) = flags s"
  "flags (s\<lparr>m_activeDownloads := m\<rparr>) = flags s"
  "flags (s\<lparr>handled := h\<rparr>) = flags s"
  by (simp_all add: flags_def)

lemma Update_callbacks_all_fields [simp]:
  "objects (Update_callbacks_all p s) = objects s"
  "next_object (Update_callbacks_all p s) = next_object s"
  "m_workers (Update_callbacks_all p s) = m_workers s"
  "m_pendingRequests (Update_callbacks_all p s) = m_pendingRequests s"
  "calls (Update_callbacks_all p s) = calls s"
  "handled (Update_callbacks_all p s) = handled s"
  using Update_callbacks_fields [of p "m_pendingCallbacks s" s
      "fst (Update_callbacks p (m_pendingCallbacks s) s)" "snd (Update_callbacks p (m_pendingCallbacks s) s)"]
  by (simp_all add: Update_callbacks_all_def Let_def)

lemma handled_of_simps [simp]:
  "handled_of b (set_worker i f s) = handled_of b s"
  "handled_of b (store a r s) = handled_of b s"
  "handled_of b (Update_callbacks_all p s) = handled_of b s"
  by (simp_all add: handled_of_def)

lemma Update_worker_ACTIVE:
  assumes "status (m_workers s ! i) = ACTIVE" and "Update_worker env i (pf, s) = Inr (pf', s')"
  shows "pf' = pf \<and> (\<exists>a r. pRequest (m_workers s ! i) = Some a \<and> objects s a = Some r
           \<and> (if m_status r = SENDING \<and> responseHeadersDone (m_workers s ! i)
               then \<exists>r'. HandleResponseHeaders (pResponseHeaders (m_workers s ! i)) r = Inr r'
                      \<and> s' = store a r' s
               else s' = s))"
  using assms
  by (auto simp: Update_worker_def Let_def on_ok_eq_Inr deref_def split: if_splits option.splits)

lemma Update_worker_DONE:
  assumes "status (m_workers s ! i) = WORKER_DONE" and "Update_worker env i (pf, s) = Inr (pf', s')"
  shows "pf' = pf \<and> (\<exists>a r r1 r2. pRequest (m_workers s ! i) = Some a \<and> objects s a = Some r
           \<and> (if m_status r = SENDING
               then HandleResponseHeaders (pResponseHeaders (m_workers s ! i)) r = Inr r1
               else r1 = r)
           \<and> HandleResponse env
                (result (m_workers s ! i) = CURLE_OK \<and> responseStatusCode (m_workers s ! i) < 400)
                (responseStatusCode (m_workers s ! i)) r1 = Inr r2
           \<and> s' = set_worker i (WakeToStatus CLEANUP)
                  (Update_callbacks_all a
                     (store a r2
                        (s\<lparr>handled := handled s @
                             [(a, result (m_workers s ! i) = CURLE_OK \<and> responseStatusCode (m_workers s ! i) < 400,
                               responseStatusCode (m_workers s ! i))]\<rparr>))))"
proof -
  let ?w = "m_workers s ! i"
  let ?succ = "result ?w = CURLE_OK \<and> responseStatusCode ?w < 400"
  have u: "Update_worker env i (pf, s) =
      on_ok (deref s (pRequest ?w)) (\<lambda>(a, r).
        on_ok (if m_status r = SENDING then HandleResponseHeaders (pResponseHeaders ?w) r else Inr r) (\<lambda>r1.
          on_ok (HandleResponse env ?succ (responseStatusCode ?w) r1) (\<lambda>r2.
            Inr (pf, set_worker i (WakeToStatus CLEANUP)
                       (Update_callbacks_all a
                          (store a r2 (s\<lparr>handled := handled s @ [(a, ?succ, responseStatusCode ?w)]\<rparr>)))))))"
    using assms(1) by (simp add: Update_worker_def Let_def)
  show ?thesis
  proof (cases "deref s (pRequest ?w)")
    case (Inl e)
    with assms(2) u show ?thesis by simp
  next
    case (Inr x)
    obtain a r where x: "x = (a, r)" by (cases x)
    from Inr x have p: "pRequest ?w = Some a" "objects s a = Some r"
      by (auto simp: deref_def split: option.splits)
    show ?thesis
    proof (cases "if m_status r = SENDING then HandleResponseHeaders (pResponseHeaders ?w) r else Inr r")
      case (Inl e)
      with assms(2) u Inr x show ?thesis by simp
    next
      case h: (Inr r1)
      then have h': "if m_status r = SENDING
               then HandleResponseHeaders (pResponseHeaders ?w) r = Inr r1 else r1 = r"
        by (auto split: if_splits)
      show ?thesis
      proof (cases "HandleResponse env ?succ (responseStatusCode ?w) r1")
        case (Inl e)
        with assms(2) u Inr x h show ?thesis by simp
      next
        case hr: (Inr r2)
        with assms(2) u Inr x h
        have "pf' = pf"
          "s' = set_worker i (WakeToStatus CLEANUP)
                  (Update_callbacks_all a
                     (store a r2 (s\<lparr>handled := handled s @ [(a, ?succ, responseStatusCode ?w)]\<rparr>)))"
          by simp_all
        with p h' hr show ?thesis by blast
      qed
    qed
  qed
qed

lemma Update_worker_CLEANUP:
  assumes "status (m_workers s ! i) = CLEANUP" and "Update_worker env i (pf, s) = Inr (pf', s')"
  shows "pf' = pf \<and> s' = s"
  using assms by (simp add: Update_worker_def Let_def)

lemma Update_worker_free:
  assumes "status (m_workers s ! i) = UNUSED \<or> status (m_workers s ! i) = READY"
    and "Update_worker env i (pf, s) = Inr (pf', s')"
  shows "pf' = (if pf = None then Some i else pf)
         \<and> s' = (if pRequest (m_workers s ! i) \<noteq> None
                  then set_worker i (\<lambda>w. w\<lparr>pRequest := None\<rparr>) s else s)"
  using assms by (auto simp: Update_worker_def Let_def)

lemma StatusCode_cases:
  obtains (active) "status w = ACTIVE" | (finished) "status w = WORKER_DONE"
    | (cleanup) "status w = CLEANUP" | (free) "status w = UNUSED \<or> status w = READY"
  by (cases "status w") auto

lemma Update_worker_flags:
  assumes "Update_worker env i (pf, s) = Inr (pf', s')"
  shows "flags s' = flags s"
proof (cases "m_workers s ! i" rule: StatusCode_cases)
  case active
  from Update_worker_ACTIVE [OF active assms] show ?thesis by (auto split: if_splits)
next
  case finished
  from Update_worker_DONE [OF finished assms] obtain a r2 h where
    "s' = set_worker i (WakeToStatus CLEANUP) (Update_callbacks_all a (store a r2 (s\<lparr>handled := h\<rparr>)))"
    by blast
  then show ?thesis by (simp add: flags_set_worker WakeToStatus_def) (simp add: flags_def)
next
  case cleanup
  from Update_worker_CLEANUP [OF cleanup assms] show ?thesis by simp
next
  case free
  from Update_worker_free [OF free assms] show ?thesis by (simp add: flags_set_worker)
qed

lemma Update_loop_flags:
  "Update_loop env is (pf, s) = Inr (pf', s') \<Longrightarrow> flags s' = flags s"
proof (induction "is" arbitrary: pf s)
  case Nil
  then show ?case by simp
next
  case (Cons i "is")
  from Cons.prems obtain pf1 s1 where
    w: "Update_worker env i (pf, s) = Inr (pf1, s1)" and l: "Update_loop env is (pf1, s1) = Inr (pf', s')"
    by (auto split: sum.splits)
  from Cons.IH [OF l] Update_worker_flags [OF w] show ?case by simp
qed

lemma Update_dispatch_flags:
  assumes "Update_dispatch env pf s = Inr s'"
  shows "flags s' = flags s"
  using assms
  by (auto simp: Update_dispatch_def Let_def on_ok_eq_Inr IwAssert_eq_Inr flags_set_worker WakeToStatus_def
      split: option.splits if_splits)

lemma Update_flags:
  assumes "Update env s = Inr s'"
  shows "flags s' = flags s"
proof -
  from assms obtain pf s1 where
    l: "Update_loop env [0..<length (m_workers s)] (None, s) = Inr (pf, s1)"
    and d: "Update_dispatch env pf s1 = Inr s'"
    by (auto simp: Update_def on_ok_eq_Inr)
  from Update_loop_flags [OF l] Update_dispatch_flags [OF d] show ?thesis by simp
qed

section \<open>Cancellation\<close>

lemma QueueRequest_workers:
  "QueueRequest env a cb s = Inr s' \<Longrightarrow> m_workers s' = m_workers s"
  by (auto simp: QueueRequest_def on_ok_eq_Inr IwAssert_eq_Inr)

lemma DownloadFile_workers:
  assumes "DownloadFile env url destFile s = Inr (a, s')"
  shows "m_workers s' = m_workers s"
proof (cases "map_of (m_activeDownloads s) url")
  case (Some b)
  with assms show ?thesis by (simp add: DownloadFile_def)
next
  case None
  with assms obtain obj calls' s2 where
    q: "QueueRequest env (next_object s) (Some HttpCallback_HandleDownloadDone)
          (s\<lparr>objects := (objects s)(next_object s \<mapsto> obj), next_object := Suc (next_object s), calls := calls'\<rparr>) = Inr s2"
    and s': "s' = s2\<lparr>m_activeDownloads := map_assign url (next_object s) (m_activeDownloads s2)\<rparr>"
    by (auto simp: DownloadFile_def Let_def on_ok_eq_Inr)
  from QueueRequest_workers [OF q] s' show ?thesis by simp
qed

lemma HeaderCallback_worker_flag [simp]:
  "cancelAndQuit (HeaderCallback_worker pHeader realsize w) = cancelAndQuit w"
  by (simp add: HeaderCallback_worker_def Let_def split: option.splits)

lemma exec_flags:
  assumes "exec env e s = Inr s'" and "i < length (m_workers s)" and "cancelAndQuit (m_workers s ! i)"
  shows "i < length (m_workers s') \<and> cancelAndQuit (m_workers s' ! i)"
proof -
  have same: "flags s' = flags s \<Longrightarrow> ?thesis"
  proof -
    assume f: "flags s' = flags s"
    then have "length (m_workers s') = length (m_workers s)"
      by (metis flags_def length_map)
    moreover from f have "flags s' ! i = flags s ! i" by simp
    ultimately show ?thesis using assms(2,3) by (simp add: flags_def)
  qed
  show ?thesis
  proof (cases e)
    case (App_DownloadFile url destFile)
    with assms(1) obtain a where "DownloadFile env url destFile s = Inr (a, s')"
      by (auto simp: on_ok_eq_Inr)
    from DownloadFile_workers [OF this] show ?thesis by (intro same) (simp add: flags_def)
  next
    case App_Update
    with assms(1) show ?thesis by (intro same) (simp add: Update_flags)
  next
    case (App_Cancel a)
    with assms(1) show ?thesis by (intro same) (auto simp: on_ok_eq_Inr)
  next
    case (App_CancelAndQuit j)
    with assms show ?thesis
      by (cases "i = j") (auto simp: CancelAndQuit_def)
  next
    case (Thread_begin j)
    with assms(1) show ?thesis by (intro same) (auto simp: WorkerThread_begin_def flags_set_worker)
  next
    case (Thread_WriteCallback j contents size' nmemb)
    with assms(1) show ?thesis
      by (intro same)
        (auto simp: HttpClient_WorkerThread_WriteCallback_def Let_def on_ok_eq_Inr split: if_splits)
  next
    case (Thread_ReadCallback j size' nmemb)
    with assms(1) show ?thesis
      by (intro same)
        (auto simp: HttpClient_WorkerThread_ReadCallback_def Let_def on_ok_eq_Inr split: if_splits)
  next
    case (Thread_HeaderCallback j pHeader size' nmemb)
    with assms(1) show ?thesis
      by (intro same)
        (auto simp: HttpClient_WorkerThread_HeaderCallback_def Let_def flags_set_worker split: if_splits)
  next
    case (Thread_ProgressCallback j dltotal dlnow ultotal ulnow)
    with assms(1) show ?thesis
      by (intro same)
        (auto simp: HttpClient_WorkerThread_ProgressCallback_def Let_def on_ok_eq_Inr split: if_splits)
  next
    case (Thread_performed j res code)
    with assms(1) show ?thesis
      by (intro same)
        (auto simp: WorkerThread_performed_def Let_def on_ok_eq_Inr flags_set_worker)
  next
    case (Thread_cleanup j)
    with assms(1) show ?thesis
      by (intro same)
        (auto simp: WorkerThread_cleanup_def Let_def on_ok_eq_Inr IwAssert_eq_Inr flags_set_worker Reset_def
          split: if_splits)
  next
    case (Thread_quit j)
    with assms(1) show ?thesis by (intro same) (auto simp: WorkerThread_quit_def flags_set_worker)
  qed
qed

text \<open>
  What the four callbacks do when the cancellation flag of their worker is set: each returns
  at once, before it touches the request, so that the state is unchanged and no method of the
  request is reached, whatever the worker's request pointer holds. The value returned is 0
  from the body-write and the header-line callback, \<^verbatim>\<open>CURL_READFUNC_ABORT\<close> from the
  upload-read callback and 1 from the progress callback. The last two always ask the engine
  to stop; 0 asks it to stop exactly when the chunk is not empty. No step of the application
  or of a worker thread clears a cancellation flag that is set.
\<close>

lemma cancelled_callbacks_return_at_once:
  assumes "cancelAndQuit (m_workers s ! i)"
  shows "HttpClient_WorkerThread_WriteCallback env contents size' nmemb i s = Inr (0, s)
         \<and> write_aborts size' nmemb 0 = (0 < size' * nmemb)
         \<and> HttpClient_WorkerThread_HeaderCallback pHeader size' nmemb i s = (0, s)
         \<and> HttpClient_WorkerThread_ReadCallback env size' nmemb i s = Inr (CURL_READFUNC_ABORT, [], s)
         \<and> read_aborts CURL_READFUNC_ABORT
         \<and> HttpClient_WorkerThread_ProgressCallback dltotal dlnow ultotal ulnow i s = Inr (1, s)
         \<and> progress_aborts 1
         \<and> (exec env e s = Inr s' \<and> i < length (m_workers s) \<longrightarrow>
              i < length (m_workers s') \<and> cancelAndQuit (m_workers s' ! i))"
  using assms exec_flags [of env e s s' i]
  by (auto simp: HttpClient_WorkerThread_WriteCallback_def HttpClient_WorkerThread_HeaderCallback_def
      HttpClient_WorkerThread_ReadCallback_def HttpClient_WorkerThread_ProgressCallback_def
      write_aborts_def read_aborts_def progress_aborts_def)

text \<open>
  Claim C2 fails on the code for the body-write callback on an empty chunk, which libcurl
  delivers when the transferred file is empty. The cancellation flag of worker 0 is set and
  the callback is invoked with \<^verbatim>\<open>size = 1\<close> and \<^verbatim>\<open>nmemb = 0\<close>: it returns 0, which is the size
  of the chunk, so the engine is not asked to stop. On a chunk of four bytes the same
  callback does ask it to stop, and so do, in the same state, the upload-read callback and
  the progress callback, whatever their arguments.
\<close>

theorem C2_empty_chunk_not_aborted:
  "cancelAndQuit (m_workers example_cancelled ! 0)
   \<and> HttpClient_WorkerThread_WriteCallback example_env [] 1 0 0 example_cancelled = Inr (0, example_cancelled)
   \<and> \<not> write_aborts 1 0 0
   \<and> HttpClient_WorkerThread_WriteCallback example_env ''data'' 1 4 0 example_cancelled
       = Inr (0, example_cancelled)
   \<and> write_aborts 1 4 0
   \<and> HttpClient_WorkerThread_ReadCallback example_env 1 0 0 example_cancelled
       = Inr (CURL_READFUNC_ABORT, [], example_cancelled)
   \<and> read_aborts CURL_READFUNC_ABORT
   \<and> HttpClient_WorkerThread_ProgressCallback 0 0 0 0 0 example_cancelled = Inr (1, example_cancelled)
   \<and> progress_aborts 1"
  by (simp add: HttpClient_WorkerThread_WriteCallback_def HttpClient_WorkerThread_ReadCallback_def
      HttpClient_WorkerThread_ProgressCallback_def example_cancelled_def example_transfer_def
      CancelAndQuit_def write_aborts_def read_aborts_def progress_aborts_def set_worker_def)

lemma pRequest_None_update: "pRequest w = None \<Longrightarrow> w\<lparr>pRequest := None\<rparr> = w"
  by (cases w) simp

lemma after_Update_loop_simps:
  "status w = ACTIVE \<Longrightarrow> after_Update_loop w = w"
  "status w = CLEANUP \<Longrightarrow> after_Update_loop w = w"
  "status w = WORKER_DONE \<Longrightarrow> after_Update_loop w = w\<lparr>status := CLEANUP\<rparr>"
  "status w = UNUSED \<or> status w = READY \<Longrightarrow> after_Update_loop w = w\<lparr>pRequest := None\<rparr>"
  by (auto simp: after_Update_loop_def is_free_def)

lemma Update_worker_workers:
  assumes "Update_worker env j (pf, s) = Inr (pf', s')"
  shows "m_workers s' = (m_workers s)[j := after_Update_loop (m_workers s ! j)]"
proof (cases "m_workers s ! j" rule: StatusCode_cases)
  case active
  from Update_worker_ACTIVE [OF active assms] show ?thesis
    by (auto simp: after_Update_loop_simps active split: if_splits)
next
  case finished
  from Update_worker_DONE [OF finished assms] show ?thesis
    by (auto simp: after_Update_loop_simps finished WakeToStatus_def)
next
  case cleanup
  from Update_worker_CLEANUP [OF cleanup assms] show ?thesis
    by (simp add: after_Update_loop_simps cleanup)
next
  case free
  from Update_worker_free [OF free assms] show ?thesis
    by (cases "pRequest (m_workers s ! j)")
      (simp_all add: after_Update_loop_simps free pRequest_None_update)
qed

lemma Update_worker_p_free:
  assumes "Update_worker env j (pf, s) = Inr (pf', s')"
  shows "pf' = (if pf = None \<and> is_free (m_workers s ! j) then Some j else pf)"
proof (cases "m_workers s ! j" rule: StatusCode_cases)
  case active
  from Update_worker_ACTIVE [OF active assms] show ?thesis by (simp add: is_free_def active)
next
  case finished
  from Update_worker_DONE [OF finished assms] show ?thesis by (simp add: is_free_def finished)
next
  case cleanup
  from Update_worker_CLEANUP [OF cleanup assms] show ?thesis by (simp add: is_free_def cleanup)
next
  case free
  from Update_worker_free [OF free assms] free show ?thesis by (auto simp: is_free_def)
qed

lemma Update_worker_frame:
  assumes "Update_worker env j (pf, s) = Inr (pf', s')"
  shows "m_pendingRequests s' = m_pendingRequests s \<and> calls s' = calls s
         \<and> next_object s' = next_object s
         \<and> (\<not> (busy (m_workers s ! j) \<and> pRequest (m_workers s ! j) = Some b) \<longrightarrow>
              objects s' b = objects s b \<and> handled_of b s' = handled_of b s)"
proof (cases "m_workers s ! j" rule: StatusCode_cases)
  case active
  from Update_worker_ACTIVE [OF active assms] show ?thesis
    by (auto simp: busy_def active handled_of_def split: if_splits)
next
  case finished
  from Update_worker_DONE [OF finished assms] show ?thesis
    by (auto simp: busy_def finished handled_of_def)
next
  case cleanup
  from Update_worker_CLEANUP [OF cleanup assms] show ?thesis by simp
next
  case free
  from Update_worker_free [OF free assms] show ?thesis by simp
qed

lemma Update_loop_Cons_Inr:
  assumes "Update_loop env (j # js) (pf, s) = Inr (pf', s')"
  obtains pf1 s1 where "Update_worker env j (pf, s) = Inr (pf1, s1)"
    and "Update_loop env js (pf1, s1) = Inr (pf', s')"
  using assms by (auto split: sum.splits)

lemma Update_loop_workers:
  "Update_loop env js (pf, s) = Inr (pf', s') \<Longrightarrow>
   m_workers s' = fold (\<lambda>j ws. ws[j := after_Update_loop (ws ! j)]) js (m_workers s)"
proof (induction js arbitrary: pf s)
  case Nil
  then show ?case by simp
next
  case (Cons j js)
  from Cons.prems obtain pf1 s1 where
    w: "Update_worker env j (pf, s) = Inr (pf1, s1)" and l: "Update_loop env js (pf1, s1) = Inr (pf', s')"
    by (rule Update_loop_Cons_Inr)
  from Cons.IH [OF l] Update_worker_workers [OF w] show ?case by simp
qed

lemma fold_update_upt:
  "n \<le> length ws \<Longrightarrow>
   fold (\<lambda>j ws. ws[j := f (ws ! j)]) [0..<n] ws = map f (take n ws) @ drop n ws"
proof (induction n)
  case 0
  then show ?case by simp
next
  case (Suc n)
  then have n: "n < length ws" by simp
  have "fold (\<lambda>j ws. ws[j := f (ws ! j)]) [0..<Suc n] ws
        = (map f (take n ws) @ drop n ws)[n := f ((map f (take n ws) @ drop n ws) ! n)]"
    using Suc by simp
  also have "(map f (take n ws) @ drop n ws) ! n = ws ! n"
    using n by (simp add: nth_append)
  also have "(map f (take n ws) @ drop n ws)[n := f (ws ! n)]
        = map f (take n ws) @ (drop n ws)[0 := f (ws ! n)]"
    using n by (simp add: list_update_append)
  also have "(drop n ws)[0 := f (ws ! n)] = f (ws ! n) # drop (Suc n) ws"
    using n by (simp add: Cons_nth_drop_Suc [symmetric])
  also have "map f (take n ws) @ f (ws ! n) # drop (Suc n) ws = map f (take (Suc n) ws) @ drop (Suc n) ws"
    using n by (simp add: take_Suc_conv_app_nth)
  finally show ?case .
qed

lemma Update_loop_all_workers:
  assumes "Update_loop env [0..<length (m_workers s)] (pf, s) = Inr (pf', s')"
  shows "m_workers s' = map after_Update_loop (m_workers s)"
  using Update_loop_workers [OF assms] by (simp add: fold_update_upt)

lemma Update_loop_frame:
  "Update_loop env js (pf, s) = Inr (pf', s') \<Longrightarrow>
   m_pendingRequests s' = m_pendingRequests s \<and> calls s' = calls s \<and> next_object s' = next_object s"
proof (induction js arbitrary: pf s)
  case Nil
  then show ?case by simp
next
  case (Cons j js)
  from Cons.prems obtain pf1 s1 where
    w: "Update_worker env j (pf, s) = Inr (pf1, s1)" and l: "Update_loop env js (pf1, s1) = Inr (pf', s')"
    by (rule Update_loop_Cons_Inr)
  from Cons.IH [OF l] Update_worker_frame [OF w] show ?case by simp
qed

lemma holds_after_Update_loop:
  "busy (after_Update_loop w) \<and> pRequest (after_Update_loop w) = Some b \<Longrightarrow> busy w \<and> pRequest w = Some b"
  by (auto simp: after_Update_loop_def busy_def is_free_def split: if_splits)

lemma Update_loop_other_objects:
  "Update_loop env js (pf, s) = Inr (pf', s') \<Longrightarrow>
   \<forall>j\<in>set js. \<not> (busy (m_workers s ! j) \<and> pRequest (m_workers s ! j) = Some b) \<Longrightarrow>
   objects s' b = objects s b \<and> handled_of b s' = handled_of b s"
proof (induction js arbitrary: pf s)
  case Nil
  then show ?case by simp
next
  case (Cons j js)
  from Cons.prems(1) obtain pf1 s1 where
    w: "Update_worker env j (pf, s) = Inr (pf1, s1)" and l: "Update_loop env js (pf1, s1) = Inr (pf', s')"
    by (rule Update_loop_Cons_Inr)
  have ws: "m_workers s1 = (m_workers s)[j := after_Update_loop (m_workers s ! j)]"
    by (rule Update_worker_workers [OF w])
  have "\<forall>k\<in>set js. \<not> (busy (m_workers s1 ! k) \<and> pRequest (m_workers s1 ! k) = Some b)"
  proof
    fix k assume k: "k \<in> set js"
    show "\<not> (busy (m_workers s1 ! k) \<and> pRequest (m_workers s1 ! k) = Some b)"
    proof (cases "k = j \<and> j < length (m_workers s)")
      case True
      then have "m_workers s1 ! k = after_Update_loop (m_workers s ! j)" by (simp add: ws)
      with Cons.prems(2) show ?thesis using holds_after_Update_loop [of "m_workers s ! j" b] by auto
    next
      case False
      then have "m_workers s1 ! k = m_workers s ! k"
        by (cases "k = j") (simp_all add: ws list_update_beyond)
      with Cons.prems(2) k show ?thesis by simp
    qed
  qed
  from Cons.IH [OF l this] Update_worker_frame [OF w, of b] Cons.prems(2) show ?case by simp
qed

lemma find_Some_upt_least:
  "List.find P js = Some i \<Longrightarrow> P i \<and> i \<in> set js"
  by (induction js) (auto split: if_splits)

lemma Update_loop_p_free:
  "Update_loop env js (pf, s) = Inr (pf', s') \<Longrightarrow>
   pf' = (case pf of Some k \<Rightarrow> Some k | None \<Rightarrow> List.find (\<lambda>j. is_free (m_workers s ! j)) js)"
proof (induction js arbitrary: pf s)
  case Nil
  then show ?case by (simp split: option.splits)
next
  case (Cons j js)
  from Cons.prems(1) obtain pf1 s1 where
    w: "Update_worker env j (pf, s) = Inr (pf1, s1)" and l: "Update_loop env js (pf1, s1) = Inr (pf', s')"
    by (rule Update_loop_Cons_Inr)
  have ws: "m_workers s1 = (m_workers s)[j := after_Update_loop (m_workers s ! j)]"
    by (rule Update_worker_workers [OF w])
  have fr: "is_free (m_workers s1 ! k) = is_free (m_workers s ! k)" for k
  proof (cases "k = j \<and> j < length (m_workers s)")
    case True
    then show ?thesis by (auto simp: ws after_Update_loop_def is_free_def)
  next
    case False
    then have "m_workers s1 ! k = m_workers s ! k"
      by (cases "k = j") (simp_all add: ws list_update_beyond)
    then show ?thesis by simp
  qed
  from Cons.IH [OF l] Update_worker_p_free [OF w] show ?case
    by (auto simp: fr split: option.splits)
qed

lemma Update_loop_append_Inr:
  "Update_loop env (xs @ ys) st = Inr st' \<Longrightarrow>
   \<exists>st1. Update_loop env xs st = Inr st1 \<and> Update_loop env ys st1 = Inr st'"
  by (induction xs arbitrary: st) (auto split: sum.splits)

lemma fold_update_length [simp]:
  "length (fold (\<lambda>j ws. ws[j := f (ws ! j)]) js ws) = length ws"
  by (induction js arbitrary: ws) simp_all

lemma fold_update_nth:
  "i \<notin> set js \<Longrightarrow> fold (\<lambda>j ws. ws[j := f (ws ! j)]) js ws ! i = ws ! i"
  by (induction js arbitrary: ws) simp_all

lemma Update_loop_finalises:
  assumes l: "Update_loop env [0..<length (m_workers s)] (pf, s) = Inr (pf', s')"
    and i: "i < length (m_workers s)"
    and d: "status (m_workers s ! i) = WORKER_DONE"
    and p: "pRequest (m_workers s ! i) = Some a"
    and o: "objects s a = Some r"
    and others: "\<forall>j<length (m_workers s). j \<noteq> i \<longrightarrow>
                   \<not> (busy (m_workers s ! j) \<and> pRequest (m_workers s ! j) = Some a)"
  shows "\<exists>r1 r2.
           (if m_status r = SENDING
            then HandleResponseHeaders (pResponseHeaders (m_workers s ! i)) r = Inr r1
            else r1 = r)
           \<and> HandleResponse env
                (result (m_workers s ! i) = CURLE_OK \<and> responseStatusCode (m_workers s ! i) < 400)
                (responseStatusCode (m_workers s ! i)) r1 = Inr r2
           \<and> objects s' a = Some r2
           \<and> handled_of a s' = handled_of a s @
                [(a, result (m_workers s ! i) = CURLE_OK \<and> responseStatusCode (m_workers s ! i) < 400,
                  responseStatusCode (m_workers s ! i))]"
proof -
  let ?n = "length (m_workers s)"
  have split: "[0..<?n] = [0..<i] @ i # [Suc i..<?n]"
    using i by (metis le0 upt_add_eq_append upt_conv_Cons le_add_diff_inverse less_imp_le_nat)
  from l obtain pf1 s1 where l1: "Update_loop env [0..<i] (pf, s) = Inr (pf1, s1)"
    and l2: "Update_loop env (i # [Suc i..<?n]) (pf1, s1) = Inr (pf', s')"
    using Update_loop_append_Inr [of env "[0..<i]" "i # [Suc i..<?n]" "(pf, s)" "(pf', s')"]
    unfolding split [symmetric] by auto
  from l2 obtain pf2 s2 where w: "Update_worker env i (pf1, s1) = Inr (pf2, s2)"
    and l3: "Update_loop env [Suc i..<?n] (pf2, s2) = Inr (pf', s')"
    by (rule Update_loop_Cons_Inr)
  have ws1: "m_workers s1 = fold (\<lambda>j ws. ws[j := after_Update_loop (ws ! j)]) [0..<i] (m_workers s)"
    by (rule Update_loop_workers [OF l1])
  have wi: "m_workers s1 ! i = m_workers s ! i"
    by (simp add: ws1 fold_update_nth)
  have len1: "length (m_workers s1) = ?n" by (simp add: ws1)
  have o1: "objects s1 a = Some r" and h1: "handled_of a s1 = handled_of a s"
    using Update_loop_other_objects [OF l1, of a] others i o by auto
  have d1: "status (m_workers s1 ! i) = WORKER_DONE" using d wi by simp
  from Update_worker_DONE [OF d1 w] obtain a' r' r1 r2 where
    q1: "pRequest (m_workers s1 ! i) = Some a'" and q2: "objects s1 a' = Some r'"
    and q3: "if m_status r' = SENDING
        then HandleResponseHeaders (pResponseHeaders (m_workers s1 ! i)) r' = Inr r1 else r1 = r'"
    and q4: "HandleResponse env
                (result (m_workers s1 ! i) = CURLE_OK \<and> responseStatusCode (m_workers s1 ! i) < 400)
                (responseStatusCode (m_workers s1 ! i)) r1 = Inr r2"
    and q5: "s2 = set_worker i (WakeToStatus CLEANUP)
                    (Update_callbacks_all a'
                       (store a' r2
                          (s1\<lparr>handled := handled s1 @
                             [(a', result (m_workers s1 ! i) = CURLE_OK \<and> responseStatusCode (m_workers s1 ! i) < 400,
                               responseStatusCode (m_workers s1 ! i))]\<rparr>)))"
    by blast
  from q1 wi p have a': "a' = a" by simp
  with q2 o1 have r': "r' = r" by simp
  from q3 have h: "if m_status r = SENDING
        then HandleResponseHeaders (pResponseHeaders (m_workers s ! i)) r = Inr r1 else r1 = r"
    unfolding wi r' .
  from q4 have hr: "HandleResponse env
                (result (m_workers s ! i) = CURLE_OK \<and> responseStatusCode (m_workers s ! i) < 400)
                (responseStatusCode (m_workers s ! i)) r1 = Inr r2"
    unfolding wi .
  from q5 have s2: "s2 = set_worker i (WakeToStatus CLEANUP)
                    (Update_callbacks_all a
                       (store a r2
                          (s1\<lparr>handled := handled s1 @
                             [(a, result (m_workers s ! i) = CURLE_OK \<and> responseStatusCode (m_workers s ! i) < 400,
                               responseStatusCode (m_workers s ! i))]\<rparr>)))"
    unfolding a' wi .
  have o2: "objects s2 a = Some r2" by (simp add: s2)
  have h2: "handled_of a s2 = handled_of a s @
                [(a, result (m_workers s ! i) = CURLE_OK \<and> responseStatusCode (m_workers s ! i) < 400,
                  responseStatusCode (m_workers s ! i))]"
    using h1 by (simp add: s2 handled_of_def)
  have "\<forall>j\<in>set [Suc i..<?n]. \<not> (busy (m_workers s2 ! j) \<and> pRequest (m_workers s2 ! j) = Some a)"
  proof
    fix j assume "j \<in> set [Suc i..<?n]"
    then have j: "i < j" "j < ?n" by simp_all
    then have "m_workers s2 ! j = m_workers s1 ! j" by (simp add: s2)
    also have "\<dots> = m_workers s ! j" using j by (simp add: ws1 fold_update_nth)
    finally show "\<not> (busy (m_workers s2 ! j) \<and> pRequest (m_workers s2 ! j) = Some a)"
      using others j by auto
  qed
  from Update_loop_other_objects [OF l3 this] o2 h2
  have "objects s' a = Some r2"
    and "handled_of a s' = handled_of a s @
                [(a, result (m_workers s ! i) = CURLE_OK \<and> responseStatusCode (m_workers s ! i) < 400,
                  responseStatusCode (m_workers s ! i))]"
    by simp_all
  with h hr show ?thesis by blast
qed

lemma Update_dispatch_frame:
  assumes "Update_dispatch env pf s = Inr s'"
  shows "calls s' = calls s \<and> next_object s' = next_object s
         \<and> m_pendingCallbacks s' = m_pendingCallbacks s \<and> m_activeDownloads s' = m_activeDownloads s
         \<and> handled s' = handled s"
  using assms
  by (auto simp: Update_dispatch_def Let_def on_ok_eq_Inr IwAssert_eq_Inr
      split: option.splits if_splits)

lemma Update_dispatch_keeps:
  assumes "Update_dispatch env pf s = Inr s'" and "objects s b = Some r" and "m_status r \<noteq> PENDING"
  shows "objects s' b = Some r"
  using assms
  by (auto simp: Update_dispatch_def Let_def on_ok_eq_Inr IwAssert_eq_Inr deref_def
      split: option.splits if_splits)

section \<open>The end of a transfer\<close>

lemma Update_Inr:
  assumes "Update env s = Inr s'"
  obtains pf s1 where "Update_loop env [0..<length (m_workers s)] (None, s) = Inr (pf, s1)"
    and "Update_dispatch env pf s1 = Inr s'"
  using assms by (auto simp: Update_def on_ok_eq_Inr)

lemma Update_finalises:
  assumes "i < length (m_workers s)"
    and "status (m_workers s ! i) = WORKER_DONE"
    and "pRequest (m_workers s ! i) = Some a"
    and "objects s a = Some r"
    and "\<forall>j<length (m_workers s). j \<noteq> i \<longrightarrow>
           \<not> (busy (m_workers s ! j) \<and> pRequest (m_workers s ! j) = Some a)"
    and "Update env s = Inr s'"
  shows "\<exists>r1 r2.
           (if m_status r = SENDING
            then HandleResponseHeaders (pResponseHeaders (m_workers s ! i)) r = Inr r1
            else r1 = r)
           \<and> HandleResponse env
                (result (m_workers s ! i) = CURLE_OK \<and> responseStatusCode (m_workers s ! i) < 400)
                (responseStatusCode (m_workers s ! i)) r1 = Inr r2
           \<and> objects s' a = Some r2
           \<and> handled_of a s' = handled_of a s @
                [(a, result (m_workers s ! i) = CURLE_OK \<and> responseStatusCode (m_workers s ! i) < 400,
                  responseStatusCode (m_workers s ! i))]"
proof -
  let ?w = "m_workers s ! i"
  from assms(6) obtain pf s1 where
    l: "Update_loop env [0..<length (m_workers s)] (None, s) = Inr (pf, s1)"
    and dsp: "Update_dispatch env pf s1 = Inr s'"
    by (rule Update_Inr)
  from Update_loop_finalises [OF l assms(1-5)] obtain r1 r2 where
    h: "if m_status r = SENDING
        then HandleResponseHeaders (pResponseHeaders ?w) r = Inr r1 else r1 = r"
    and hr: "HandleResponse env (result ?w = CURLE_OK \<and> responseStatusCode ?w < 400)
                (responseStatusCode ?w) r1 = Inr r2"
    and o: "objects s1 a = Some r2"
    and hd: "handled_of a s1 = handled_of a s @
                [(a, result ?w = CURLE_OK \<and> responseStatusCode ?w < 400, responseStatusCode ?w)]"
    by blast
  from HandleResponse_status [OF hr] have "m_status r2 \<noteq> PENDING" by auto
  from Update_dispatch_keeps [OF dsp o this] have "objects s' a = Some r2" .
  moreover have "handled_of a s' = handled_of a s1"
    using Update_dispatch_frame [OF dsp] by (simp add: handled_of_def)
  ultimately show ?thesis using h hr hd by auto
qed

lemma HandleResponseHeaders_sub:
  "HandleResponseHeaders hdrs r = Inr r' \<Longrightarrow> sub r' = sub r"
  by (auto simp: HandleResponseHeaders_def IwAssert_eq_Inr)

text \<open>
  Claim C3. When \<^verbatim>\<open>Update\<close> finds a worker in state \<open>WORKER_DONE\<close> (its transfer has ended)
  it first processes the headers if the request is still \<open>SENDING\<close>, then invokes the final
  response handling of the request exactly once, with the status code that the worker
  recorded as \<^verbatim>\<open>httpStatusCode\<close> and with \<open>success\<close> false exactly when the transport result
  is not OK or the status code is 400 or more. In that case the request, of whatever class,
  is left in state \<open>ERROR\<close>: after a transport failure for which the worker recorded status
  code 0 the handler has received \<^verbatim>\<open>httpStatusCode = 0\<close>, and after a status code of 400 or
  more it has received that code. Otherwise a download is left in state \<open>DONE\<close>, and a request
  of another class in \<open>DONE\<close> or \<open>ERROR\<close>. The request is held by this worker only.
\<close>

theorem C3_final_response_handling:
  assumes "i < length (m_workers s)"
    and "status (m_workers s ! i) = WORKER_DONE"
    and "pRequest (m_workers s ! i) = Some a"
    and "objects s a = Some r"
    and "\<forall>j<length (m_workers s). j \<noteq> i \<longrightarrow>
           \<not> (busy (m_workers s ! j) \<and> pRequest (m_workers s ! j) = Some a)"
    and "Update env s = Inr s'"
  shows "\<exists>r1 r2.
           (if m_status r = SENDING
            then HandleResponseHeaders (pResponseHeaders (m_workers s ! i)) r = Inr r1
            else r1 = r)
           \<and> HandleResponse env
                (\<not> (result (m_workers s ! i) \<noteq> CURLE_OK \<or> 400 \<le> responseStatusCode (m_workers s ! i)))
                (responseStatusCode (m_workers s ! i)) r1 = Inr r2
           \<and> objects s' a = Some r2
           \<and> handled_of a s' = handled_of a s @
                [(a, \<not> (result (m_workers s ! i) \<noteq> CURLE_OK \<or> 400 \<le> responseStatusCode (m_workers s ! i)),
                  responseStatusCode (m_workers s ! i))]
           \<and> (result (m_workers s ! i) \<noteq> CURLE_OK \<or> 400 \<le> responseStatusCode (m_workers s ! i)
                \<longrightarrow> m_status r2 = ERROR)
           \<and> (result (m_workers s ! i) \<noteq> CURLE_OK \<and> responseStatusCode (m_workers s ! i) = 0
                \<longrightarrow> handled_of a s' = handled_of a s @ [(a, False, 0)])
           \<and> (400 \<le> responseStatusCode (m_workers s ! i)
                \<longrightarrow> handled_of a s' = handled_of a s @ [(a, False, responseStatusCode (m_workers s ! i))])
           \<and> (result (m_workers s ! i) = CURLE_OK \<and> responseStatusCode (m_workers s ! i) < 400
                \<longrightarrow> (if is_HttpDownload r then m_status r2 = DONE
                     else m_status r2 = DONE \<or> m_status r2 = ERROR))"
proof -
  let ?w = "m_workers s ! i"
  have eq: "(\<not> (result ?w \<noteq> CURLE_OK \<or> 400 \<le> responseStatusCode ?w))
            = (result ?w = CURLE_OK \<and> responseStatusCode ?w < 400)"
    by auto
  from Update_finalises [OF assms] obtain r1 r2 where
    h: "if m_status r = SENDING
        then HandleResponseHeaders (pResponseHeaders ?w) r = Inr r1 else r1 = r"
    and hr: "HandleResponse env (result ?w = CURLE_OK \<and> responseStatusCode ?w < 400)
                (responseStatusCode ?w) r1 = Inr r2"
    and o': "objects s' a = Some r2"
    and hd: "handled_of a s' = handled_of a s @
                [(a, result ?w = CURLE_OK \<and> responseStatusCode ?w < 400, responseStatusCode ?w)]"
    by blast
  from HandleResponse_status [OF hr]
  have er: "result ?w \<noteq> CURLE_OK \<or> 400 \<le> responseStatusCode ?w \<longrightarrow> m_status r2 = ERROR"
    and de: "m_status r2 = DONE \<or> m_status r2 = ERROR"
    by auto
  have z: "result ?w \<noteq> CURLE_OK \<and> responseStatusCode ?w = 0
             \<longrightarrow> handled_of a s' = handled_of a s @ [(a, False, 0)]"
    using hd by auto
  have f: "400 \<le> responseStatusCode ?w
             \<longrightarrow> handled_of a s' = handled_of a s @ [(a, False, responseStatusCode ?w)]"
    using hd by auto
  from h have "sub r1 = sub r" by (auto dest: HandleResponseHeaders_sub split: if_splits)
  then have dl: "is_HttpDownload r1 = is_HttpDownload r" by (simp add: is_HttpDownload_def)
  have ok: "result ?w = CURLE_OK \<and> responseStatusCode ?w < 400
             \<longrightarrow> (if is_HttpDownload r then m_status r2 = DONE
                  else m_status r2 = DONE \<or> m_status r2 = ERROR)"
  proof (cases "sub r1")
    case (HttpDownload_obj d)
    with hr show ?thesis
      by (auto simp: HandleResponse_def HttpRequest_HandleResponse_eq_Inr)
  next
    case (HttpPost_obj p ext)
    with dl de show ?thesis by (simp add: is_HttpDownload_def)
  next
    case (YoutubeUploadRequest_obj y)
    with dl de show ?thesis by (simp add: is_HttpDownload_def)
  qed
  show ?thesis
    unfolding eq
    by (rule exI [of _ r1], rule exI [of _ r2]) (intro conjI h hr o' hd er z f ok)
qed

lemma example_finished_Update:
  "Update example_env (example_finished res code) =
     Inr ((example_finished res code)
            \<lparr>objects := [0 \<mapsto> example_download\<lparr>m_status := (if res = CURLE_OK \<and> code < 400 then DONE else ERROR)\<rparr>],
             m_workers := [\<lparr> pCurl = True, pRequest = Some 0, cancelAndQuit = False, status = CLEANUP,
                      responseHeadersDone = True, pResponseHeaders = [], result = res,
                      responseStatusCode = code \<rparr>,
                    HttpClient_Worker],
             handled := [(0, res = CURLE_OK \<and> code < 400, code)]\<rparr>)"
  by (simp add: Update_def Update_worker_def Update_dispatch_def Update_callbacks_all_def
      HandleResponseHeaders_def HandleResponse_def HttpRequest_HandleResponse_def deref_def
      example_finished_def example_download_def HttpClient_Worker_def Let_def upt_rec
      set_worker_def store_def WakeToStatus_def)

theorem C3_final_response_handling_witness:
  "handled_of 0 (projr (Update example_env (example_finished 7 0))) = [(0, False, 0)]
   \<and> map_option m_status (objects (projr (Update example_env (example_finished 7 0))) 0) = Some ERROR
   \<and> handled_of 0 (projr (Update example_env (example_finished CURLE_OK 404))) = [(0, False, 404)]
   \<and> map_option m_status (objects (projr (Update example_env (example_finished CURLE_OK 404))) 0) = Some ERROR
   \<and> handled_of 0 (projr (Update example_env (example_finished CURLE_OK 200))) = [(0, True, 200)]
   \<and> map_option m_status (objects (projr (Update example_env (example_finished CURLE_OK 200))) 0) = Some DONE"
proof -
  have f: "(0::nat) < length (m_workers (example_finished res code))"
    "status (m_workers (example_finished res code) ! 0) = WORKER_DONE"
    "pRequest (m_workers (example_finished res code) ! 0) = Some 0"
    "objects (example_finished res code) 0 = Some (example_download\<lparr>m_status := SENDING\<rparr>)"
    "\<forall>j<length (m_workers (example_finished res code)). j \<noteq> 0 \<longrightarrow>
       \<not> (busy (m_workers (example_finished res code) ! j)
          \<and> pRequest (m_workers (example_finished res code) ! j) = Some 0)"
    "Update example_env (example_finished res code) = Inr (projr (Update example_env (example_finished res code)))"
    for res code
    by (simp_all add: example_finished_Update)
      (simp_all add: example_finished_def HttpClient_Worker_def busy_def less_Suc_eq)
  have g: "handled_of 0 (example_finished res code) = []"
    "result (m_workers (example_finished res code) ! 0) = res"
    "responseStatusCode (m_workers (example_finished res code) ! 0) = code"
    "is_HttpDownload (example_download\<lparr>m_status := SENDING\<rparr>)" for res code
    by (simp_all add: example_finished_def handled_of_def is_HttpDownload_def example_download_def)
  show ?thesis
    using C3_final_response_handling [OF f, of 7 0] C3_final_response_handling [OF f, of CURLE_OK 404]
      C3_final_response_handling [OF f, of CURLE_OK 200]
    by (auto simp: g CURLE_OK_def)
qed

lemma example_receiving_written:
  "exec example_env (Thread_WriteCallback 0 ''data'' 1 4) example_transfer = Inr example_receiving"
  by (simp add: HttpClient_WorkerThread_WriteCallback_def Worker_HandleData_def
      HttpDownload_Worker_HandleData_def deref_def example_transfer_def example_receiving_def
      example_download_def example_env_def c_str_def Let_def store_def)

lemma Update_calls:
  assumes "Update env s = Inr s'"
  shows "calls s' = calls s"
proof -
  from assms obtain pf s1 where
    l: "Update_loop env [0..<length (m_workers s)] (None, s) = Inr (pf, s1)"
    and d: "Update_dispatch env pf s1 = Inr s'"
    by (rule Update_Inr)
  from Update_loop_frame [OF l] Update_dispatch_frame [OF d] show ?thesis by simp
qed

text \<open>
  What the end of a download does. A download is being transferred by one worker; the
  transfer ends with transport result \<open>res\<close> and HTTP status \<open>code\<close>, and the application then
  calls \<^verbatim>\<open>Update\<close>. If a body chunk had been received, so that the temporary file is open, the
  file is closed and then renamed to the destination exactly when the transport result is OK
  and the status is 200, and deleted otherwise; nothing else touches the file system. If no
  chunk had been received no file is touched. The final response handling is invoked once,
  with \<open>code\<close> as \<^verbatim>\<open>httpStatusCode\<close>, and the request ends in \<open>ERROR\<close> exactly when the
  transport result is not OK or the status is 400 or more, in \<open>DONE\<close> otherwise.
\<close>

lemma download_file_outcome:
  assumes "i < length (m_workers s)"
    and "status (m_workers s ! i) = ACTIVE"
    and "pRequest (m_workers s ! i) = Some a"
    and "objects s a = Some r"
    and "sub r = HttpDownload_obj d"
    and "\<forall>j<length (m_workers s). j \<noteq> i \<longrightarrow>
           \<not> (busy (m_workers s ! j) \<and> pRequest (m_workers s ! j) = Some a)"
    and "WorkerThread_performed res code i s = Inr s1"
    and "Update env s1 = Inr s2"
  shows "calls s2 = calls s @
           (case m_pTmpFile d of
              None \<Rightarrow> []
            | Some f \<Rightarrow>
                [s3eFileClose f,
                 if res = CURLE_OK \<and> code = 200
                 then s3eFileRename (c_str (m_destFile d @ ''.tmp'')) (c_str (m_destFile d))
                 else s3eFileDelete (c_str (m_destFile d @ ''.tmp''))])
         \<and> handled_of a s2 = handled_of a s @ [(a, res = CURLE_OK \<and> code < 400, code)]
         \<and> (\<exists>r2. objects s2 a = Some r2
               \<and> m_status r2 = (if res = CURLE_OK \<and> code < 400 then DONE else ERROR))"
proof -
  let ?ws = "m_workers s"
  let ?fin = "HttpDownload_Worker_HandleDone (res = CURLE_OK) code d (calls s)"
  let ?r' = "r\<lparr>sub := HttpDownload_obj (fst ?fin)\<rparr>"
  have s1: "s1 = set_worker i (\<lambda>w. w\<lparr>status := WORKER_DONE\<rparr>)
                  (store a ?r' ((set_worker i (\<lambda>w. w\<lparr>result := res, responseStatusCode := code\<rparr>) s)
                                  \<lparr>calls := snd ?fin\<rparr>))"
    using assms(1,3,4,5,7)
    by (simp add: WorkerThread_performed_def Let_def deref_def Worker_HandleDone_def split_def)
  have ws1: "m_workers s1 = ?ws[i := (?ws ! i)\<lparr>result := res, responseStatusCode := code, status := WORKER_DONE\<rparr>]"
    using assms(1) by (simp add: s1)
  have w1: "status (m_workers s1 ! i) = WORKER_DONE" "pRequest (m_workers s1 ! i) = Some a"
    "result (m_workers s1 ! i) = res" "responseStatusCode (m_workers s1 ! i) = code"
    "i < length (m_workers s1)"
    using assms(1,3) by (simp_all add: ws1)
  have o1: "objects s1 a = Some ?r'" by (simp add: s1)
  have c1: "calls s1 = snd ?fin" by (simp add: s1)
  have h1: "handled_of a s1 = handled_of a s" by (simp add: s1 handled_of_def set_worker_def store_def)
  have others: "\<forall>j<length (m_workers s1). j \<noteq> i \<longrightarrow>
           \<not> (busy (m_workers s1 ! j) \<and> pRequest (m_workers s1 ! j) = Some a)"
    using assms(6) by (simp add: ws1)
  from Update_finalises [OF w1(5) w1(1) w1(2) o1 others assms(8)] obtain r1 r2 where
    h: "if m_status ?r' = SENDING
        then HandleResponseHeaders (pResponseHeaders (m_workers s1 ! i)) ?r' = Inr r1 else r1 = ?r'"
    and hr: "HandleResponse env (res = CURLE_OK \<and> code < 400) code r1 = Inr r2"
    and o2: "objects s2 a = Some r2"
    and h2: "handled_of a s2 = handled_of a s1 @ [(a, res = CURLE_OK \<and> code < 400, code)]"
    unfolding w1 by blast
  from h have "sub r1 = HttpDownload_obj (fst ?fin)"
    by (auto dest: HandleResponseHeaders_sub split: if_splits)
  with hr have "m_status r2 = (if res = CURLE_OK \<and> code < 400 then DONE else ERROR)"
    by (auto simp: HandleResponse_def HttpRequest_HandleResponse_eq_Inr)
  moreover have "calls s2 = snd ?fin" using Update_calls [OF assms(8)] c1 by simp
  moreover have "snd ?fin = calls s @
           (case m_pTmpFile d of
              None \<Rightarrow> []
            | Some f \<Rightarrow>
                [s3eFileClose f,
                 if res = CURLE_OK \<and> code = 200
                 then s3eFileRename (c_str (m_destFile d @ ''.tmp'')) (c_str (m_destFile d))
                 else s3eFileDelete (c_str (m_destFile d @ ''.tmp''))])"
    by (simp add: HttpDownload_Worker_HandleDone_def split: option.splits)
  ultimately show ?thesis using o2 h2 h1 by auto
qed

lemma example_receiving_run:
  "run example_env [Thread_performed 0 res code, App_Update] example_receiving =
     Inr (example_receiving
            \<lparr>objects := [0 \<mapsto> example_download\<lparr>m_status := (if res = CURLE_OK \<and> code < 400 then DONE else ERROR)\<rparr>],
             m_workers := [\<lparr> pCurl = True, pRequest = Some 0, cancelAndQuit = False, status = CLEANUP,
                      responseHeadersDone = False, pResponseHeaders = [], result = res,
                      responseStatusCode = code \<rparr>,
                    HttpClient_Worker],
             calls := [s3eFileOpen ''a.bin.tmp'' ''w'', s3eFileWrite ''a.bin.tmp'' ''data'',
                       s3eFileClose ''a.bin.tmp'',
                       if res = CURLE_OK \<and> code = 200 then s3eFileRename ''a.bin.tmp'' ''a.bin''
                       else s3eFileDelete ''a.bin.tmp''],
             handled := [(0, res = CURLE_OK \<and> code < 400, code)]\<rparr>)"
  by (simp add: WorkerThread_performed_def Worker_HandleDone_def HttpDownload_Worker_HandleDone_def
      Update_def Update_worker_def Update_dispatch_def Update_callbacks_all_def
      HandleResponseHeaders_def HandleResponse_def HttpRequest_HandleResponse_def deref_def
      example_receiving_def example_download_def Let_def c_str_def HttpClient_Worker_def upt_rec
      set_worker_def store_def WakeToStatus_def)

text \<open>
  Claim C5 fails on the code for a download that ends with transport result OK and a status
  below 400 other than 200. The download \<^verbatim>\<open>http://h/a\<close> to \<^verbatim>\<open>a.bin\<close> has received the body
  chunk \<^verbatim>\<open>data\<close> of a redirection that libcurl does not follow, and the transfer ends with
  status 301. The worker thread closes and deletes \<^verbatim>\<open>a.bin.tmp\<close> and \<^verbatim>\<open>a.bin\<close> is not
  created, as the claim says; but \<^verbatim>\<open>Update\<close> then invokes the final response handling with
  \<open>success\<close> true, and the request ends in \<open>DONE\<close>, not in \<open>ERROR\<close>.
\<close>

theorem C5_deleted_download_ends_DONE:
  "\<not> isl (run example_env [Thread_performed 0 CURLE_OK 301, App_Update] example_receiving)
   \<and> calls (projr (run example_env [Thread_performed 0 CURLE_OK 301, App_Update] example_receiving)) =
       [s3eFileOpen ''a.bin.tmp'' ''w'', s3eFileWrite ''a.bin.tmp'' ''data'',
        s3eFileClose ''a.bin.tmp'', s3eFileDelete ''a.bin.tmp'']
   \<and> handled (projr (run example_env [Thread_performed 0 CURLE_OK 301, App_Update] example_receiving))
       = [(0, True, 301)]
   \<and> map_option m_status
        (objects (projr (run example_env [Thread_performed 0 CURLE_OK 301, App_Update] example_receiving)) 0)
       = Some DONE"
  unfolding example_receiving_run by (simp add: example_receiving_def CURLE_OK_def)

section \<open>Dispatching pending requests\<close>

lemma first_free_Some:
  assumes "first_free ws = Some i"
  shows "i < length ws \<and> is_free (ws ! i) \<and> (\<forall>j<i. \<not> is_free (ws ! j))"
proof -
  from assms obtain k where k: "k < length [0..<length ws]" "is_free (ws ! ([0..<length ws] ! k))"
    "i = [0..<length ws] ! k" "\<forall>j<k. \<not> is_free (ws ! ([0..<length ws] ! j))"
    unfolding first_free_def find_Some_iff by blast
  then have "i = k" "k < length ws" by simp_all
  with k show ?thesis by auto
qed

lemma Update_dispatch_nothing:
  assumes "pf = None \<or> m_pendingRequests s1 = []" and "Update_dispatch env pf s1 = Inr s'"
  shows "s' = s1"
  using assms by (auto simp: Update_dispatch_def split: option.splits)

lemma status_after_pRequest:
  "status ((ws[i := (ws ! i)\<lparr>pRequest := p\<rparr>]) ! i) = status (ws ! i)"
  "pCurl ((ws[i := (ws ! i)\<lparr>pRequest := p\<rparr>]) ! i) = pCurl (ws ! i)"
  by (cases "i < length ws"; simp add: list_update_beyond)+

lemma Update_dispatch_head:
  assumes "m_pendingRequests s1 = a # q" and "objects s1 a = Some r"
    and "Update_dispatch env (Some i) s1 = Inr s'"
  shows "if m_status r = PENDING
         then s' = set_worker i (\<lambda>w. w\<lparr>status := ACTIVE\<rparr>)
                     (store a (r\<lparr>m_status := SENDING\<rparr>)
                        (set_worker i (\<lambda>w. w\<lparr>pRequest := Some a\<rparr>) (s1\<lparr>m_pendingRequests := q\<rparr>)))
              \<and> (status (m_workers s1 ! i) = UNUSED \<longrightarrow> pthread_create_ok env)
         else m_status r = CANCELLED \<and> s' = s1\<lparr>m_pendingRequests := q\<rparr>"
proof (cases "m_status r = PENDING")
  case True
  with assms show ?thesis
    by (auto simp: Update_dispatch_def Let_def deref_def HandleRequestStart_def IwAssert_eq_Inr
        status_after_pRequest WakeToStatus_def split: if_splits)
next
  case False
  with assms show ?thesis
    by (auto simp: Update_dispatch_def Let_def deref_def IwAssert_eq_Inr)
qed

text \<open>
  Claim C1, as the code has it. A call of \<^verbatim>\<open>Update\<close> takes at most one request from the
  pending queue. If no worker is free (\<open>UNUSED\<close> or \<open>READY\<close>) or the queue is empty, the queue
  stays as it is and the workers are only passed by the loop. Otherwise the head of the queue
  is popped, and no other request. If it is \<open>PENDING\<close> it is assigned to the free worker of
  lowest index, which becomes \<open>ACTIVE\<close> (a thread is spawned for an \<open>UNUSED\<close> worker, which
  needs \<^verbatim>\<open>pthread_create\<close> to succeed; a \<open>READY\<close> worker is woken), and the request becomes
  \<open>SENDING\<close>; every other worker, free or not, is only passed by the loop and receives
  nothing. If the head was cancelled while queued it is dropped: no worker is given anything
  and the request stays \<open>CANCELLED\<close>. The head of the queue is not held by a busy worker.
\<close>

theorem C1_one_dispatch_per_Update:
  assumes "Update env s = Inr s'"
  shows "(first_free (m_workers s) = None \<or> m_pendingRequests s = [] \<longrightarrow>
            m_pendingRequests s' = m_pendingRequests s
            \<and> m_workers s' = map after_Update_loop (m_workers s))
         \<and> (first_free (m_workers s) = Some i \<and> m_pendingRequests s = a # q \<and> objects s a = Some r
              \<and> (\<forall>j<length (m_workers s).
                    \<not> (busy (m_workers s ! j) \<and> pRequest (m_workers s ! j) = Some a)) \<longrightarrow>
            m_pendingRequests s' = q
            \<and> i < length (m_workers s) \<and> is_free (m_workers s ! i)
            \<and> (\<forall>j<i. \<not> is_free (m_workers s ! j))
            \<and> (if m_status r = PENDING
                then m_workers s' =
                       (map after_Update_loop (m_workers s))
                         [i := (m_workers s ! i)\<lparr>pRequest := Some a, status := ACTIVE\<rparr>]
                     \<and> objects s' a = Some (r\<lparr>m_status := SENDING\<rparr>)
                     \<and> (status (m_workers s ! i) = UNUSED \<longrightarrow> pthread_create_ok env)
                else m_status r = CANCELLED
                     \<and> m_workers s' = map after_Update_loop (m_workers s)
                     \<and> objects s' a = Some r))"
proof -
  let ?ws = "m_workers s"
  from assms obtain pf s1 where
    l: "Update_loop env [0..<length ?ws] (None, s) = Inr (pf, s1)"
    and d: "Update_dispatch env pf s1 = Inr s'"
    by (rule Update_Inr)
  have pf: "pf = first_free ?ws"
    using Update_loop_p_free [OF l] by (simp add: first_free_def)
  have ws1: "m_workers s1 = map after_Update_loop ?ws"
    by (rule Update_loop_all_workers [OF l])
  have q1: "m_pendingRequests s1 = m_pendingRequests s"
    using Update_loop_frame [OF l] by simp
  have part1: "first_free ?ws = None \<or> m_pendingRequests s = [] \<longrightarrow>
            m_pendingRequests s' = m_pendingRequests s \<and> m_workers s' = map after_Update_loop ?ws"
    using Update_dispatch_nothing [OF _ d] pf q1 ws1 by auto
  have part2: "m_pendingRequests s' = q
            \<and> i < length ?ws \<and> is_free (?ws ! i) \<and> (\<forall>j<i. \<not> is_free (?ws ! j))
            \<and> (if m_status r = PENDING
                then m_workers s' =
                       (map after_Update_loop ?ws)[i := (?ws ! i)\<lparr>pRequest := Some a, status := ACTIVE\<rparr>]
                     \<and> objects s' a = Some (r\<lparr>m_status := SENDING\<rparr>)
                     \<and> (status (?ws ! i) = UNUSED \<longrightarrow> pthread_create_ok env)
                else m_status r = CANCELLED
                     \<and> m_workers s' = map after_Update_loop ?ws
                     \<and> objects s' a = Some r)"
    if h: "first_free ?ws = Some i" "m_pendingRequests s = a # q" "objects s a = Some r"
      "\<forall>j<length ?ws. \<not> (busy (?ws ! j) \<and> pRequest (?ws ! j) = Some a)"
  proof -
    from first_free_Some [OF h(1)] have i: "i < length ?ws" "is_free (?ws ! i)" "\<forall>j<i. \<not> is_free (?ws ! j)"
      by simp_all
    have o1: "objects s1 a = Some r"
      using Update_loop_other_objects [OF l, of a] h(3,4) by simp
    have d': "Update_dispatch env (Some i) s1 = Inr s'" using d pf h(1) by simp
    have al: "after_Update_loop (?ws ! i) = (?ws ! i)\<lparr>pRequest := None\<rparr>"
      using i(2) by (auto simp: after_Update_loop_def is_free_def)
    have st: "status (m_workers s1 ! i) = status (?ws ! i)"
      using i(1) by (simp add: ws1 al)
    from Update_dispatch_head [OF _ o1 d'] q1 h(2)
    have c: "if m_status r = PENDING
         then s' = set_worker i (\<lambda>w. w\<lparr>status := ACTIVE\<rparr>)
                     (store a (r\<lparr>m_status := SENDING\<rparr>)
                        (set_worker i (\<lambda>w. w\<lparr>pRequest := Some a\<rparr>) (s1\<lparr>m_pendingRequests := q\<rparr>)))
              \<and> (status (m_workers s1 ! i) = UNUSED \<longrightarrow> pthread_create_ok env)
         else m_status r = CANCELLED \<and> s' = s1\<lparr>m_pendingRequests := q\<rparr>"
      by simp
    show ?thesis
    proof (cases "m_status r = PENDING")
      case True
      with c have s': "s' = set_worker i (\<lambda>w. w\<lparr>status := ACTIVE\<rparr>)
                     (store a (r\<lparr>m_status := SENDING\<rparr>)
                        (set_worker i (\<lambda>w. w\<lparr>pRequest := Some a\<rparr>) (s1\<lparr>m_pendingRequests := q\<rparr>)))"
        and sp: "status (m_workers s1 ! i) = UNUSED \<longrightarrow> pthread_create_ok env"
        by simp_all
      have "m_workers s' = (map after_Update_loop ?ws)[i := (?ws ! i)\<lparr>pRequest := Some a, status := ACTIVE\<rparr>]"
        using i(1) by (simp add: s' ws1 al)
      moreover have "objects s' a = Some (r\<lparr>m_status := SENDING\<rparr>)" by (simp add: s')
      moreover have "m_pendingRequests s' = q" by (simp add: s')
      ultimately show ?thesis using True i sp st by simp
    next
      case False
      with c have "m_status r = CANCELLED" "s' = s1\<lparr>m_pendingRequests := q\<rparr>" by simp_all
      then show ?thesis using False i ws1 o1 by simp
    qed
  qed
  from part1 part2 show ?thesis by blast
qed

lemma example_two_pending_Update:
  "Update example_env example_two_pending =
     Inr (example_two_pending
            \<lparr>objects := [0 \<mapsto> example_download\<lparr>m_status := SENDING\<rparr>,
                         1 \<mapsto> example_download\<lparr>m_url := ''http://h/b''\<rparr>],
             m_workers := [HttpClient_Worker\<lparr>pRequest := Some 0, status := ACTIVE\<rparr>, HttpClient_Worker],
             m_pendingRequests := [1]\<rparr>)"
  by (simp add: Update_def Update_worker_def Update_dispatch_def deref_def HandleRequestStart_def
      example_two_pending_def example_download_def example_env_def HttpClient_Worker_def Let_def upt_rec
      set_worker_def store_def fun_upd_twist)

text \<open>
  Claim C1 as stated fails with two free workers and two pending requests: one call of
  \<^verbatim>\<open>Update\<close> assigns the first request to the first worker and leaves the second request
  queued and the second worker unused.
\<close>

theorem C1_counterexample:
  "map is_free (m_workers example_two_pending) = [True, True]
   \<and> m_pendingRequests example_two_pending = [0, 1]
   \<and> \<not> isl (Update example_env example_two_pending)
   \<and> m_pendingRequests (projr (Update example_env example_two_pending)) = [1]
   \<and> map status (m_workers (projr (Update example_env example_two_pending))) = [ACTIVE, UNUSED]
   \<and> map pRequest (m_workers (projr (Update example_env example_two_pending))) = [Some 0, None]"
  unfolding example_two_pending_Update
  by (simp add: example_two_pending_def HttpClient_Worker_def is_free_def)

theorem C1_one_dispatch_per_Update_witness:
  "m_pendingRequests (projr (Update example_env example_two_pending)) = [1]
   \<and> objects (projr (Update example_env example_two_pending)) 0 = Some (example_download\<lparr>m_status := SENDING\<rparr>)
   \<and> m_workers (projr (Update example_env example_two_pending)) =
       [HttpClient_Worker\<lparr>pRequest := Some 0, status := ACTIVE\<rparr>, HttpClient_Worker]
   \<and> m_pendingRequests (projr (Update example_env (example_finished CURLE_OK 200))) = []
   \<and> map status (m_workers (projr (Update example_env (example_finished CURLE_OK 200)))) = [CLEANUP, UNUSED]"
proof -
  have u1: "Update example_env example_two_pending = Inr (projr (Update example_env example_two_pending))"
    unfolding example_two_pending_Update by simp
  have u2: "Update example_env (example_finished CURLE_OK 200) =
              Inr (projr (Update example_env (example_finished CURLE_OK 200)))"
    unfolding example_finished_Update by simp
  have h1: "first_free (m_workers example_two_pending) = Some 0
            \<and> m_pendingRequests example_two_pending = 0 # [1]
            \<and> objects example_two_pending 0 = Some example_download
            \<and> (\<forall>j<length (m_workers example_two_pending).
                  \<not> (busy (m_workers example_two_pending ! j)
                     \<and> pRequest (m_workers example_two_pending ! j) = Some 0))"
    by (simp add: example_two_pending_def first_free_def is_free_def busy_def HttpClient_Worker_def
        upt_rec less_Suc_eq)
  have h2: "first_free (m_workers (example_finished CURLE_OK 200)) = None
            \<or> m_pendingRequests (example_finished CURLE_OK 200) = []"
    by (simp add: example_finished_def)
  have p: "m_status example_download = PENDING" by (simp add: example_download_def)
  show ?thesis
    using C1_one_dispatch_per_Update [OF u1, of 0 0 "[1]" example_download] h1 p
      C1_one_dispatch_per_Update [OF u2] h2
    by (simp add: example_two_pending_def example_finished_def after_Update_loop_def is_free_def
        HttpClient_Worker_def)
qed

section \<open>The invariant of the downloader\<close>

lemma downloader_inv_cong:
  assumes "objects s' = objects s" and "next_object s' = next_object s"
    and "m_pendingCallbacks s' = m_pendingCallbacks s" and "m_activeDownloads s' = m_activeDownloads s"
  shows "downloader_inv s' = downloader_inv s"
  using assms by (simp add: downloader_inv_def)

lemma downloader_inv_set_worker [simp]:
  "downloader_inv (set_worker i f s) = downloader_inv s"
  by (rule downloader_inv_cong) simp_all

lemma downloader_inv_updates [simp]:
  "downloader_inv (s\<lparr>calls := c\<rparr>) = downloader_inv s"
  "downloader_inv (s\<lparr>m_pendingRequests := q\<rparr>) = downloader_inv s"
  "downloader_inv (s\<lparr>delivered := dl\<rparr>) = downloader_inv s"
  "downloader_inv (s\<lparr>handled := h\<rparr>) = downloader_inv s"
  by (rule downloader_inv_cong; simp)+

lemma downloader_inv_store:
  assumes "downloader_inv s" and "objects s a = Some r" and "terminal r' \<longrightarrow> terminal r"
  shows "downloader_inv (store a r' s)"
  using assms unfolding downloader_inv_def by (auto simp: store_def)

lemma downloader_inv_init: "downloader_inv (HttpDownloader n)"
  by (simp add: downloader_inv_def HttpDownloader_def)

text \<open>The worker-side methods leave the status alone.\<close>

lemma Worker_HandleData_status:
  "Worker_HandleData env contents n r cs = Inr (k, r', cs') \<Longrightarrow> m_status r' = m_status r"
  by (auto simp: Worker_HandleData_def on_ok_eq_Inr split: derived.splits prod.splits)

lemma Worker_HandleUpload_status:
  "Worker_HandleUpload env n r cs = Inr (k, data, r', cs') \<Longrightarrow> m_status r' = m_status r"
  by (auto simp: Worker_HandleUpload_def on_ok_eq_Inr split: derived.splits prod.splits)

lemma Worker_HandleDone_status:
  "m_status (fst (Worker_HandleDone success code r cs)) = m_status r"
  by (simp add: Worker_HandleDone_def split_def Let_def split: derived.splits)

lemma Worker_HandleCleanup_status:
  "m_status (fst (Worker_HandleCleanup r cs)) = m_status r"
  by (simp add: Worker_HandleCleanup_def split: derived.splits)

lemma deref_Inr: "deref s p = Inr (a, r) \<longleftrightarrow> p = Some a \<and> objects s a = Some r"
  by (auto simp: deref_def split: option.splits)

text \<open>What the callbacks of a finished request do to the active downloads.\<close>

lemma HandleDownloadDone_loop_subset:
  "set (HandleDownloadDone_loop p m) \<subseteq> set m"
  by (induction m) (auto split: if_splits)

lemma HandleDownloadDone_loop_keeps:
  "e \<in> set m \<Longrightarrow> snd e \<noteq> p \<Longrightarrow> e \<in> set (HandleDownloadDone_loop p m)"
  by (induction m) auto

lemma HandleDownloadDone_loop_distinct:
  "distinct (map f m) \<Longrightarrow> distinct (map f (HandleDownloadDone_loop p m))"
proof (induction m)
  case Nil
  then show ?case by simp
next
  case (Cons e m)
  obtain k v where e: "e = (k, v)" by (cases e)
  have "f e \<notin> f ` set (HandleDownloadDone_loop p m)"
    using Cons.prems HandleDownloadDone_loop_subset [of p m] by auto
  with Cons e show ?case by auto
qed

lemma HandleDownloadDone_loop_removes:
  "distinct (map snd m) \<Longrightarrow> p \<notin> snd ` set (HandleDownloadDone_loop p m)"
proof (induction m)
  case Nil
  then show ?case by simp
next
  case (Cons e m)
  obtain k v where e: "e = (k, v)" by (cases e)
  with Cons show ?case by (auto simp: image_iff)
qed

lemma Update_callbacks_active:
  "Update_callbacks p cbs s = (cbs', s') \<Longrightarrow>
   cbs' = filter (\<lambda>qc. fst qc \<noteq> p) cbs
   \<and> set (m_activeDownloads s') \<subseteq> set (m_activeDownloads s)
   \<and> (\<forall>e\<in>set (m_activeDownloads s). snd e \<noteq> p \<longrightarrow> e \<in> set (m_activeDownloads s'))
   \<and> (distinct (map fst (m_activeDownloads s)) \<longrightarrow> distinct (map fst (m_activeDownloads s')))
   \<and> (distinct (map snd (m_activeDownloads s)) \<longrightarrow> distinct (map snd (m_activeDownloads s')))
   \<and> (distinct (map snd (m_activeDownloads s)) \<and> (p, HttpCallback_HandleDownloadDone) \<in> set cbs
        \<longrightarrow> p \<notin> snd ` set (m_activeDownloads s'))"
proof (induction cbs arbitrary: s cbs' s')
  case Nil
  then show ?case by simp
next
  case (Cons qc cbs)
  obtain q cb where qc: "qc = (q, cb)" by (cases qc)
  show ?case
  proof (cases "q = p")
    case False
    obtain rest' s1 where r: "Update_callbacks p cbs s = (rest', s1)"
      by (cases "Update_callbacks p cbs s")
    with Cons.prems qc False have "cbs' = (q, cb) # rest'" "s' = s1" by simp_all
    with Cons.IH [OF r] qc False show ?thesis by auto
  next
    case True
    with Cons.prems qc have u: "Update_callbacks p cbs (Call cb p s) = (cbs', s')" by simp
    note ih = Cons.IH [OF u]
    show ?thesis
    proof (cases cb)
      case (HttpStaticCallback f)
      then have m: "m_activeDownloads (Call cb p s) = m_activeDownloads s" by (simp add: Call_def)
      from ih show ?thesis unfolding m using qc True HttpStaticCallback by auto
    next
      case HttpCallback_HandleDownloadDone
      then have m: "m_activeDownloads (Call cb p s) = HandleDownloadDone_loop p (m_activeDownloads s)"
        by (simp add: Call_def HandleDownloadDone_def)
      have a: "set (m_activeDownloads s') \<subseteq> set (m_activeDownloads s)"
        using ih HandleDownloadDone_loop_subset [of p "m_activeDownloads s"] unfolding m by blast
      have b: "\<forall>e\<in>set (m_activeDownloads s). snd e \<noteq> p \<longrightarrow> e \<in> set (m_activeDownloads s')"
        using ih HandleDownloadDone_loop_keeps [of _ "m_activeDownloads s" p] unfolding m by blast
      have c: "distinct (map f (m_activeDownloads s)) \<Longrightarrow>
               distinct (map f (HandleDownloadDone_loop p (m_activeDownloads s)))" for f :: "string \<times> nat \<Rightarrow> 'b"
        by (rule HandleDownloadDone_loop_distinct)
      have d: "distinct (map snd (m_activeDownloads s)) \<longrightarrow> p \<notin> snd ` set (m_activeDownloads s')"
      proof
        assume "distinct (map snd (m_activeDownloads s))"
        then have "p \<notin> snd ` set (HandleDownloadDone_loop p (m_activeDownloads s))"
          by (rule HandleDownloadDone_loop_removes)
        with ih show "p \<notin> snd ` set (m_activeDownloads s')" unfolding m by blast
      qed
      from ih have e: "cbs' = filter (\<lambda>qc. fst qc \<noteq> p) cbs" by simp
      from ih c [of fst] c [of snd]
      have f: "distinct (map fst (m_activeDownloads s)) \<longrightarrow> distinct (map fst (m_activeDownloads s'))"
        "distinct (map snd (m_activeDownloads s)) \<longrightarrow> distinct (map snd (m_activeDownloads s'))"
        unfolding m by blast+
      from a b d e f show ?thesis using qc True by simp
    qed
  qed
qed

lemma HandleResponseHeaders_status:
  "HandleResponseHeaders hdrs r = Inr r' \<Longrightarrow> m_status r' = HEADERS"
  by (auto simp: HandleResponseHeaders_def IwAssert_eq_Inr)

lemma Update_callbacks_all_inv:
  assumes inv: "downloader_inv s" and o: "objects s a = Some r"
  shows "downloader_inv (Update_callbacks_all a (store a r2 s))
         \<and> set (m_activeDownloads (Update_callbacks_all a (store a r2 s))) \<subseteq> set (m_activeDownloads s)"
proof -
  let ?s0 = "store a r2 s"
  let ?X = "Update_callbacks a (m_pendingCallbacks ?s0) ?s0"
  let ?s3 = "Update_callbacks_all a ?s0"
  have x: "?X = (fst ?X, snd ?X)" by simp
  note act = Update_callbacks_active [OF x]
  have m3: "m_activeDownloads ?s3 = m_activeDownloads (snd ?X)"
    and c3: "m_pendingCallbacks ?s3 = filter (\<lambda>qc. fst qc \<noteq> a) (m_pendingCallbacks s)"
    using act by (simp_all add: Update_callbacks_all_def Let_def)
  have o3: "objects ?s3 = (objects s)(a \<mapsto> r2)" and n3: "next_object ?s3 = next_object s"
    by simp_all
  have sub: "set (m_activeDownloads ?s3) \<subseteq> set (m_activeDownloads s)"
    using act by (simp add: m3)
  have d: "distinct (map fst (m_activeDownloads ?s3))" "distinct (map snd (m_activeDownloads ?s3))"
    using act inv by (simp_all add: m3 downloader_inv_def)
  have na: "a \<notin> snd ` set (m_activeDownloads ?s3)"
  proof (cases "(a, HttpCallback_HandleDownloadDone) \<in> set (m_pendingCallbacks s)")
    case True
    with act inv show ?thesis by (simp add: m3 downloader_inv_def)
  next
    case False
    with inv have "a \<notin> snd ` set (m_activeDownloads s)" by (auto simp: downloader_inv_def)
    with sub show ?thesis by auto
  qed
  have e: "\<forall>e\<in>set (m_activeDownloads ?s3).
            (snd e, HttpCallback_HandleDownloadDone) \<in> set (m_pendingCallbacks ?s3)
            \<and> (\<exists>r. objects ?s3 (snd e) = Some r \<and> \<not> terminal r)"
  proof
    fix e assume e: "e \<in> set (m_activeDownloads ?s3)"
    with na have ne: "snd e \<noteq> a" by auto
    from e sub have "e \<in> set (m_activeDownloads s)" by auto
    with inv have "(snd e, HttpCallback_HandleDownloadDone) \<in> set (m_pendingCallbacks s)"
      "\<exists>r. objects s (snd e) = Some r \<and> \<not> terminal r"
      by (auto simp: downloader_inv_def)
    with ne show "(snd e, HttpCallback_HandleDownloadDone) \<in> set (m_pendingCallbacks ?s3)
            \<and> (\<exists>r. objects ?s3 (snd e) = Some r \<and> \<not> terminal r)"
      by (simp add: c3 o3)
  qed
  have dom: "\<forall>b. objects ?s3 b \<noteq> None \<longrightarrow> b < next_object ?s3"
    using inv o by (auto simp: o3 n3 downloader_inv_def)
  from d e dom sub show ?thesis unfolding downloader_inv_def by blast
qed

lemma Update_worker_inv:
  assumes "downloader_inv s" and "Update_worker env j (pf, s) = Inr (pf', s')"
  shows "downloader_inv s' \<and> set (m_activeDownloads s') \<subseteq> set (m_activeDownloads s)"
proof (cases "m_workers s ! j" rule: StatusCode_cases)
  case active
  from Update_worker_ACTIVE [OF active assms(2)] obtain a r where
    o: "objects s a = Some r"
    and c: "if m_status r = SENDING \<and> responseHeadersDone (m_workers s ! j)
            then \<exists>r'. HandleResponseHeaders (pResponseHeaders (m_workers s ! j)) r = Inr r' \<and> s' = store a r' s
            else s' = s"
    by blast
  show ?thesis
  proof (cases "m_status r = SENDING \<and> responseHeadersDone (m_workers s ! j)")
    case True
    with c obtain r' where h: "HandleResponseHeaders (pResponseHeaders (m_workers s ! j)) r = Inr r'"
      and s': "s' = store a r' s" by auto
    from HandleResponseHeaders_status [OF h] have "\<not> terminal r'" by (simp add: terminal_def)
    with downloader_inv_store [OF assms(1) o, of r'] s' show ?thesis by simp
  next
    case False
    with c assms(1) show ?thesis by simp
  qed
next
  case finished
  from Update_worker_DONE [OF finished assms(2)] obtain a r r2 h where
    o: "objects s a = Some r"
    and s': "s' = set_worker j (WakeToStatus CLEANUP)
                    (Update_callbacks_all a (store a r2 (s\<lparr>handled := h\<rparr>)))"
    by blast
  have "downloader_inv (s\<lparr>handled := h\<rparr>)" "objects (s\<lparr>handled := h\<rparr>) a = Some r"
    using assms(1) o by simp_all
  from Update_callbacks_all_inv [OF this, of r2] s' show ?thesis by simp
next
  case cleanup
  from Update_worker_CLEANUP [OF cleanup assms(2)] assms(1) show ?thesis by simp
next
  case free
  from Update_worker_free [OF free assms(2)] assms(1) show ?thesis by simp
qed

lemma Update_loop_inv:
  "downloader_inv s \<Longrightarrow> Update_loop env js (pf, s) = Inr (pf', s') \<Longrightarrow>
   downloader_inv s' \<and> set (m_activeDownloads s') \<subseteq> set (m_activeDownloads s)"
proof (induction js arbitrary: pf s)
  case Nil
  then show ?case by simp
next
  case (Cons j js)
  from Cons.prems(2) obtain pf1 s1 where
    w: "Update_worker env j (pf, s) = Inr (pf1, s1)" and l: "Update_loop env js (pf1, s1) = Inr (pf', s')"
    by (rule Update_loop_Cons_Inr)
  from Update_worker_inv [OF Cons.prems(1) w]
  have i1: "downloader_inv s1" and m1: "set (m_activeDownloads s1) \<subseteq> set (m_activeDownloads s)"
    by simp_all
  from Cons.IH [OF i1 l] m1 show ?case by auto
qed

lemma Update_dispatch_inv:
  assumes "downloader_inv s" and "Update_dispatch env pf s = Inr s'"
  shows "downloader_inv s'"
proof (cases "pf = None \<or> m_pendingRequests s = []")
  case True
  from Update_dispatch_nothing [OF True assms(2)] assms(1) show ?thesis by simp
next
  case False
  then obtain i a q where pf: "pf = Some i" and q: "m_pendingRequests s = a # q"
    by (cases pf; cases "m_pendingRequests s") auto
  from assms(2) pf q obtain r where o: "objects s a = Some r"
    by (auto simp: Update_dispatch_def Let_def on_ok_eq_Inr deref_def split: option.splits)
  from Update_dispatch_head [OF q o] assms(2) pf
  have c: "if m_status r = PENDING
         then s' = set_worker i (\<lambda>w. w\<lparr>status := ACTIVE\<rparr>)
                     (store a (r\<lparr>m_status := SENDING\<rparr>)
                        (set_worker i (\<lambda>w. w\<lparr>pRequest := Some a\<rparr>) (s\<lparr>m_pendingRequests := q\<rparr>)))
              \<and> (status (m_workers s ! i) = UNUSED \<longrightarrow> pthread_create_ok env)
         else m_status r = CANCELLED \<and> s' = s\<lparr>m_pendingRequests := q\<rparr>"
    by simp
  show ?thesis
  proof (cases "m_status r = PENDING")
    case True
    have "downloader_inv (store a (r\<lparr>m_status := SENDING\<rparr>)
                        (set_worker i (\<lambda>w. w\<lparr>pRequest := Some a\<rparr>) (s\<lparr>m_pendingRequests := q\<rparr>)))"
      by (rule downloader_inv_store [where r = r]) (simp_all add: assms(1) o terminal_def)
    with c True show ?thesis by simp
  next
    case False
    with c assms(1) show ?thesis by simp
  qed
qed

lemma Update_inv:
  assumes "downloader_inv s" and "Update env s = Inr s'"
  shows "downloader_inv s' \<and> set (m_activeDownloads s') \<subseteq> set (m_activeDownloads s)"
proof -
  from assms(2) obtain pf s1 where
    l: "Update_loop env [0..<length (m_workers s)] (None, s) = Inr (pf, s1)"
    and d: "Update_dispatch env pf s1 = Inr s'"
    by (rule Update_Inr)
  from Update_loop_inv [OF assms(1) l] Update_dispatch_inv [OF _ d] Update_dispatch_frame [OF d]
  show ?thesis by simp
qed

lemma map_of_map_assign: "map_of (map_assign k v m) = (map_of m)(k \<mapsto> v)"
proof (induction m)
  case Nil
  then show ?case by simp
next
  case (Cons e m)
  obtain k' v' where e: "e = (k', v')" by (cases e)
  show ?case using Cons e by (auto simp: fun_upd_twist)
qed

lemma set_map_assign:
  "map_of m k = None \<Longrightarrow> set (map_assign k v m) = insert (k, v) (set m)"
proof (induction m)
  case Nil
  then show ?case by simp
next
  case (Cons e m)
  obtain k' v' where e: "e = (k', v')" by (cases e)
  with Cons show ?case by (auto split: if_splits)
qed

lemma distinct_map_assign:
  "map_of m k = None \<Longrightarrow> distinct (map f m) \<Longrightarrow> f (k, v) \<notin> f ` set m \<Longrightarrow>
   distinct (map f (map_assign k v m))"
proof (induction m)
  case Nil
  then show ?case by simp
next
  case (Cons e m)
  obtain k' v' where e: "e = (k', v')" by (cases e)
  from Cons.prems e have n: "map_of m k = None" "k \<noteq> k'" by (auto split: if_splits)
  have "f e \<notin> f ` set (map_assign k v m)"
    using Cons.prems n by (auto simp: set_map_assign)
  with Cons n e show ?case by auto
qed

lemma QueueRequest_pending:
  assumes "objects s a = Some r" and "m_status r = PENDING"
  shows "QueueRequest env a (Some cb) s =
           Inr (s\<lparr>m_pendingRequests := m_pendingRequests s @ [a],
                  m_pendingCallbacks := m_pendingCallbacks s @ [(a, cb)]\<rparr>)"
  using assms by (simp add: QueueRequest_def deref_def store_same)

lemma DownloadFile_existing:
  "map_of (m_activeDownloads s) url = Some a \<Longrightarrow> DownloadFile env url destFile s = Inr (a, s)"
  by (simp add: DownloadFile_def)

lemma DownloadFile_new:
  assumes "map_of (m_activeDownloads s) url = None" and "DownloadFile env url destFile s = Inr (a, s')"
  shows "\<exists>obj calls'. HttpDownload env url destFile (calls s) = Inr (obj, calls')
           \<and> a = next_object s
           \<and> objects s' = (objects s)(a \<mapsto> obj) \<and> next_object s' = Suc a \<and> calls s' = calls'
           \<and> m_workers s' = m_workers s \<and> delivered s' = delivered s
           \<and> m_pendingRequests s' = m_pendingRequests s @ [a]
           \<and> m_pendingCallbacks s' = m_pendingCallbacks s @ [(a, HttpCallback_HandleDownloadDone)]
           \<and> m_activeDownloads s' = map_assign url a (m_activeDownloads s)"
proof (cases "HttpDownload env url destFile (calls s)")
  case (Inl e)
  with assms show ?thesis by (simp add: DownloadFile_def)
next
  case (Inr x)
  obtain obj calls' where x: "x = (obj, calls')" by (cases x)
  let ?a = "next_object s"
  let ?s1 = "s\<lparr>objects := (objects s)(?a \<mapsto> obj), next_object := Suc ?a, calls := calls'\<rparr>"
  have p: "m_status obj = PENDING"
    using HttpDownload_eq_Inr [of env url destFile "calls s" obj calls'] Inr x by simp
  have q: "QueueRequest env ?a (Some HttpCallback_HandleDownloadDone) ?s1 =
           Inr (?s1\<lparr>m_pendingRequests := m_pendingRequests ?s1 @ [?a],
                  m_pendingCallbacks := m_pendingCallbacks ?s1 @ [(?a, HttpCallback_HandleDownloadDone)]\<rparr>)"
    by (rule QueueRequest_pending [where r = obj]) (simp_all add: p)
  from assms Inr x q have "a = ?a"
    and "s' = ?s1\<lparr>m_pendingRequests := m_pendingRequests ?s1 @ [?a],
                  m_pendingCallbacks := m_pendingCallbacks ?s1 @ [(?a, HttpCallback_HandleDownloadDone)],
                  m_activeDownloads := map_assign url ?a (m_activeDownloads ?s1)\<rparr>"
    by (auto simp: DownloadFile_def Let_def)
  with Inr x show ?thesis by simp
qed

lemma DownloadFile_inv:
  assumes "downloader_inv s" and "DownloadFile env url destFile s = Inr (a, s')"
  shows "downloader_inv s'"
proof (cases "map_of (m_activeDownloads s) url")
  case (Some b)
  with assms show ?thesis by (simp add: DownloadFile_def)
next
  case None
  from DownloadFile_new [OF None assms(2)] obtain obj calls' where
    c: "HttpDownload env url destFile (calls s) = Inr (obj, calls')"
    and a: "a = next_object s"
    and f: "objects s' = (objects s)(a \<mapsto> obj)" "next_object s' = Suc a"
      "m_pendingCallbacks s' = m_pendingCallbacks s @ [(a, HttpCallback_HandleDownloadDone)]"
      "m_activeDownloads s' = map_assign url a (m_activeDownloads s)"
    by blast
  have p: "\<not> terminal obj"
    using HttpDownload_eq_Inr [OF c] by (simp add: terminal_def)
  have fresh: "a \<notin> snd ` set (m_activeDownloads s)"
    using assms(1) a by (fastforce simp: downloader_inv_def)
  have k: "url \<notin> fst ` set (m_activeDownloads s)"
    using None by (simp add: map_of_eq_None_iff)
  have d1: "distinct (map fst (m_activeDownloads s'))"
    unfolding f using assms(1) k by (intro distinct_map_assign [OF None]) (auto simp: downloader_inv_def)
  have d2: "distinct (map snd (m_activeDownloads s'))"
    unfolding f using assms(1) fresh by (intro distinct_map_assign [OF None]) (auto simp: downloader_inv_def)
  have e: "\<forall>e\<in>set (m_activeDownloads s').
            (snd e, HttpCallback_HandleDownloadDone) \<in> set (m_pendingCallbacks s')
            \<and> (\<exists>r. objects s' (snd e) = Some r \<and> \<not> terminal r)"
    unfolding f set_map_assign [OF None] using assms(1) p fresh
    by (auto simp: downloader_inv_def)
  have dom: "\<forall>b. objects s' b \<noteq> None \<longrightarrow> b < next_object s'"
    unfolding f using assms(1) a by (auto simp: downloader_inv_def less_Suc_eq)
  from d1 d2 e dom show ?thesis unfolding downloader_inv_def by blast
qed

lemma exec_inv:
  assumes "downloader_inv s" and "exec env e s = Inr s'"
  shows "downloader_inv s'"
proof (cases e)
  case (App_DownloadFile url destFile)
  with assms(2) obtain a where "DownloadFile env url destFile s = Inr (a, s')"
    by (auto simp: on_ok_eq_Inr)
  from DownloadFile_inv [OF assms(1) this] show ?thesis .
next
  case App_Update
  with assms Update_inv show ?thesis by auto
next
  case (App_Cancel a)
  with assms(2) obtain r where o: "objects s a = Some r" and s': "s' = store a (Cancel r) s"
    by (auto simp: on_ok_eq_Inr deref_Inr)
  have "terminal (Cancel r) \<longrightarrow> terminal r" by (simp add: Cancel_def terminal_def)
  from downloader_inv_store [OF assms(1) o this] s' show ?thesis by simp
next
  case (App_CancelAndQuit i)
  with assms show ?thesis by auto
next
  case (Thread_begin i)
  with assms show ?thesis by (auto simp: WorkerThread_begin_def)
next
  case (Thread_WriteCallback i contents size' nmemb)
  show ?thesis
  proof (cases "cancelAndQuit (m_workers s ! i)")
    case True
    with assms Thread_WriteCallback show ?thesis
      by (simp add: HttpClient_WorkerThread_WriteCallback_def)
  next
    case False
    with assms(2) Thread_WriteCallback obtain a r n r' calls' where
      o: "objects s a = Some r"
      and w: "Worker_HandleData env contents (size' * nmemb) r (calls s) = Inr (n, r', calls')"
      and s': "s' = store a r' (s\<lparr>calls := calls'\<rparr>)"
      by (auto simp: HttpClient_WorkerThread_WriteCallback_def Let_def on_ok_eq_Inr deref_Inr)
    have "terminal r' \<longrightarrow> terminal r"
      using Worker_HandleData_status [OF w] by (simp add: terminal_def)
    from downloader_inv_store [of "s\<lparr>calls := calls'\<rparr>" a r r'] assms(1) o this s'
    show ?thesis by simp
  qed
next
  case (Thread_ReadCallback i size' nmemb)
  show ?thesis
  proof (cases "cancelAndQuit (m_workers s ! i)")
    case True
    with assms Thread_ReadCallback show ?thesis
      by (simp add: HttpClient_WorkerThread_ReadCallback_def)
  next
    case False
    with assms(2) Thread_ReadCallback obtain a r n data r' calls' where
      o: "objects s a = Some r"
      and w: "Worker_HandleUpload env (size' * nmemb) r (calls s) = Inr (n, data, r', calls')"
      and s': "s' = store a r' (s\<lparr>calls := calls'\<rparr>)"
      by (auto simp: HttpClient_WorkerThread_ReadCallback_def Let_def on_ok_eq_Inr deref_Inr)
    have "terminal r' \<longrightarrow> terminal r"
      using Worker_HandleUpload_status [OF w] by (simp add: terminal_def)
    from downloader_inv_store [of "s\<lparr>calls := calls'\<rparr>" a r r'] assms(1) o this s'
    show ?thesis by simp
  qed
next
  case (Thread_HeaderCallback i pHeader size' nmemb)
  with assms show ?thesis
    by (auto simp: HttpClient_WorkerThread_HeaderCallback_def Let_def split: if_splits)
next
  case (Thread_ProgressCallback i dltotal dlnow ultotal ulnow)
  show ?thesis
  proof (cases "cancelAndQuit (m_workers s ! i)")
    case True
    with assms Thread_ProgressCallback show ?thesis
      by (simp add: HttpClient_WorkerThread_ProgressCallback_def)
  next
    case False
    with assms(2) Thread_ProgressCallback obtain a r where
      o: "objects s a = Some r"
      and s': "s' = store a (Worker_UpdateProgress dltotal dlnow ultotal ulnow r) s"
      by (auto simp: HttpClient_WorkerThread_ProgressCallback_def Let_def on_ok_eq_Inr deref_Inr)
    have "terminal (Worker_UpdateProgress dltotal dlnow ultotal ulnow r) \<longrightarrow> terminal r"
      by (simp add: Worker_UpdateProgress_def terminal_def)
    from downloader_inv_store [OF assms(1) o this] s' show ?thesis by simp
  qed
next
  case (Thread_performed i res code)
  let ?s1 = "set_worker i (\<lambda>w. w\<lparr>result := res, responseStatusCode := code\<rparr>) s"
  from assms(2) Thread_performed obtain a r where
    o: "objects s a = Some r"
    and s': "s' = set_worker i (\<lambda>w. w\<lparr>status := WORKER_DONE\<rparr>)
               (store a (fst (Worker_HandleDone (result (m_workers ?s1 ! i) = CURLE_OK)
                                 (responseStatusCode (m_workers ?s1 ! i)) r (calls ?s1)))
                  (?s1\<lparr>calls := snd (Worker_HandleDone (result (m_workers ?s1 ! i) = CURLE_OK)
                                 (responseStatusCode (m_workers ?s1 ! i)) r (calls ?s1))\<rparr>))"
    by (auto simp: WorkerThread_performed_def Let_def on_ok_eq_Inr deref_Inr)
  have "downloader_inv (store a (fst (Worker_HandleDone (result (m_workers ?s1 ! i) = CURLE_OK)
                                 (responseStatusCode (m_workers ?s1 ! i)) r (calls ?s1)))
                  (?s1\<lparr>calls := snd (Worker_HandleDone (result (m_workers ?s1 ! i) = CURLE_OK)
                                 (responseStatusCode (m_workers ?s1 ! i)) r (calls ?s1))\<rparr>))"
    by (rule downloader_inv_store [where r = r])
      (simp_all add: assms(1) o terminal_def Worker_HandleDone_status)
  with s' show ?thesis by simp
next
  case (Thread_cleanup i)
  from assms(2) Thread_cleanup obtain a r where
    o: "objects s a = Some r"
    and s': "s' = set_worker i (\<lambda>w. w\<lparr>pCurl := False\<rparr>)
                    (set_worker i Reset (store a (fst (Worker_HandleCleanup r (calls s)))
                       (s\<lparr>calls := snd (Worker_HandleCleanup r (calls s))\<rparr>)))
       \<or> s' = set_worker i (\<lambda>w. w\<lparr>status := READY\<rparr>)
                    (set_worker i Reset (store a (fst (Worker_HandleCleanup r (calls s)))
                       (s\<lparr>calls := snd (Worker_HandleCleanup r (calls s))\<rparr>)))"
    by (auto simp: WorkerThread_cleanup_def Let_def on_ok_eq_Inr IwAssert_eq_Inr deref_Inr
        split: if_splits)
  have "downloader_inv (store a (fst (Worker_HandleCleanup r (calls s)))
                       (s\<lparr>calls := snd (Worker_HandleCleanup r (calls s))\<rparr>))"
    by (rule downloader_inv_store [where r = r])
      (simp_all add: assms(1) o terminal_def Worker_HandleCleanup_status)
  with s' show ?thesis by auto
next
  case (Thread_quit i)
  with assms show ?thesis by (auto simp: WorkerThread_quit_def)
qed

lemma reachable_inv: "reachable n s \<Longrightarrow> downloader_inv s"
  by (induction rule: reachable.induct) (auto intro: downloader_inv_init exec_inv)

section \<open>One download per key\<close>

lemma Update_callbacks_all_keeps:
  assumes "e \<in> set (m_activeDownloads s)" and "snd e \<noteq> a"
  shows "e \<in> set (m_activeDownloads (Update_callbacks_all a (store a r2 s)))"
proof -
  let ?s0 = "store a r2 s"
  let ?X = "Update_callbacks a (m_pendingCallbacks ?s0) ?s0"
  have x: "?X = (fst ?X, snd ?X)" by simp
  from Update_callbacks_active [OF x] assms
  have "e \<in> set (m_activeDownloads (snd ?X))" by simp
  then show ?thesis by (simp add: Update_callbacks_all_def Let_def)
qed

lemma Update_worker_removed:
  assumes "Update_worker env j (pf, s) = Inr (pf', s')"
  shows "(\<forall>e\<in>set (m_activeDownloads s).
            e \<in> set (m_activeDownloads s') \<or> (\<exists>r'. objects s' (snd e) = Some r' \<and> terminal r'))
         \<and> (\<forall>b r. objects s b = Some r \<and> terminal r \<longrightarrow> objects s' b = Some r)"
proof (cases "m_workers s ! j" rule: StatusCode_cases)
  case active
  from Update_worker_ACTIVE [OF active assms] obtain a r where
    o: "objects s a = Some r"
    and c: "if m_status r = SENDING \<and> responseHeadersDone (m_workers s ! j)
            then \<exists>r'. HandleResponseHeaders (pResponseHeaders (m_workers s ! j)) r = Inr r' \<and> s' = store a r' s
            else s' = s"
    by blast
  show ?thesis
  proof (cases "m_status r = SENDING \<and> responseHeadersDone (m_workers s ! j)")
    case True
    with c obtain r' where s': "s' = store a r' s" by auto
    from True o have "\<forall>b r. objects s b = Some r \<and> terminal r \<longrightarrow> b \<noteq> a"
      by (auto simp: terminal_def)
    then show ?thesis by (auto simp: s')
  next
    case False
    with c show ?thesis by simp
  qed
next
  case finished
  from Update_worker_DONE [OF finished assms] obtain a r r1 r2 h where
    o: "objects s a = Some r"
    and h: "if m_status r = SENDING
            then HandleResponseHeaders (pResponseHeaders (m_workers s ! j)) r = Inr r1 else r1 = r"
    and hr: "HandleResponse env
                (result (m_workers s ! j) = CURLE_OK \<and> responseStatusCode (m_workers s ! j) < 400)
                (responseStatusCode (m_workers s ! j)) r1 = Inr r2"
    and s': "s' = set_worker j (WakeToStatus CLEANUP)
                    (Update_callbacks_all a (store a r2 (s\<lparr>handled := h\<rparr>)))"
    by blast
  from HandleResponse_status [OF hr] have t2: "terminal r2" and h1: "m_status r1 = HEADERS"
    by (simp_all add: terminal_def)
  from h h1 have "\<not> terminal r" by (auto simp: terminal_def split: if_splits)
  with o have ne: "\<forall>b r. objects s b = Some r \<and> terminal r \<longrightarrow> b \<noteq> a" by auto
  have o': "objects s' = (objects s)(a \<mapsto> r2)" by (simp add: s')
  have "\<forall>e\<in>set (m_activeDownloads s).
            e \<in> set (m_activeDownloads s') \<or> (\<exists>r'. objects s' (snd e) = Some r' \<and> terminal r')"
  proof
    fix e assume e: "e \<in> set (m_activeDownloads s)"
    show "e \<in> set (m_activeDownloads s') \<or> (\<exists>r'. objects s' (snd e) = Some r' \<and> terminal r')"
    proof (cases "snd e = a")
      case True
      with t2 o' show ?thesis by simp
    next
      case False
      from e have "e \<in> set (m_activeDownloads (s\<lparr>handled := h\<rparr>))" by simp
      from Update_callbacks_all_keeps [OF this False, of r2] show ?thesis by (simp add: s')
    qed
  qed
  with ne o' show ?thesis by auto
next
  case cleanup
  from Update_worker_CLEANUP [OF cleanup assms] show ?thesis by simp
next
  case free
  from Update_worker_free [OF free assms] show ?thesis by simp
qed

lemma Update_loop_removed:
  "Update_loop env js (pf, s) = Inr (pf', s') \<Longrightarrow>
   (\<forall>e\<in>set (m_activeDownloads s).
       e \<in> set (m_activeDownloads s') \<or> (\<exists>r'. objects s' (snd e) = Some r' \<and> terminal r'))
   \<and> (\<forall>b r. objects s b = Some r \<and> terminal r \<longrightarrow> objects s' b = Some r)"
proof (induction js arbitrary: pf s)
  case Nil
  then show ?case by simp
next
  case (Cons j js)
  from Cons.prems obtain pf1 s1 where
    w: "Update_worker env j (pf, s) = Inr (pf1, s1)" and l: "Update_loop env js (pf1, s1) = Inr (pf', s')"
    by (rule Update_loop_Cons_Inr)
  note a = Update_worker_removed [OF w]
  note b = Cons.IH [OF l]
  have t: "\<forall>b r. objects s b = Some r \<and> terminal r \<longrightarrow> objects s' b = Some r"
    using a b by blast
  have "\<forall>e\<in>set (m_activeDownloads s).
       e \<in> set (m_activeDownloads s') \<or> (\<exists>r'. objects s' (snd e) = Some r' \<and> terminal r')"
  proof
    fix e assume "e \<in> set (m_activeDownloads s)"
    with a have "e \<in> set (m_activeDownloads s1) \<or> (\<exists>r'. objects s1 (snd e) = Some r' \<and> terminal r')"
      by blast
    then show "e \<in> set (m_activeDownloads s') \<or> (\<exists>r'. objects s' (snd e) = Some r' \<and> terminal r')"
      using b by blast
  qed
  with t show ?case by blast
qed

lemma Update_removed:
  assumes "Update env s = Inr s'"
  shows "(\<forall>e\<in>set (m_activeDownloads s).
            e \<in> set (m_activeDownloads s') \<or> (\<exists>r'. objects s' (snd e) = Some r' \<and> terminal r'))"
proof -
  from assms obtain pf s1 where
    l: "Update_loop env [0..<length (m_workers s)] (None, s) = Inr (pf, s1)"
    and d: "Update_dispatch env pf s1 = Inr s'"
    by (rule Update_Inr)
  have k: "objects s1 b = Some r \<Longrightarrow> terminal r \<Longrightarrow> objects s' b = Some r" for b r
    using Update_dispatch_keeps [OF d, of b r] by (auto simp: terminal_def)
  have m: "m_activeDownloads s' = m_activeDownloads s1"
    using Update_dispatch_frame [OF d] by simp
  from Update_loop_removed [OF l] k show ?thesis unfolding m by blast
qed

lemma exec_mapping:
  assumes inv: "downloader_inv s" and ex: "exec env e s = Inr s'"
    and m: "map_of (m_activeDownloads s) url = Some a"
  shows "map_of (m_activeDownloads s') url = Some a
         \<or> (map_of (m_activeDownloads s') url = None \<and> (\<exists>r'. objects s' a = Some r' \<and> terminal r'))"
proof -
  have same: "m_activeDownloads s' = m_activeDownloads s \<Longrightarrow> ?thesis" using m by simp
  show ?thesis
  proof (cases e)
    case (App_DownloadFile url2 destFile)
    with ex obtain b where d: "DownloadFile env url2 destFile s = Inr (b, s')"
      by (auto simp: on_ok_eq_Inr)
    show ?thesis
    proof (cases "map_of (m_activeDownloads s) url2")
      case (Some c)
      with d show ?thesis by (intro same) (simp add: DownloadFile_def)
    next
      case None
      with m have "url \<noteq> url2" by auto
      with DownloadFile_new [OF None d] m show ?thesis by (auto simp: map_of_map_assign)
    qed
  next
    case App_Update
    with ex have u: "Update env s = Inr s'" by simp
    from Update_inv [OF inv u] have inv': "downloader_inv s'"
      and sub: "set (m_activeDownloads s') \<subseteq> set (m_activeDownloads s)" by simp_all
    from m have ua: "(url, a) \<in> set (m_activeDownloads s)" by (rule map_of_SomeD)
    show ?thesis
    proof (cases "(url, a) \<in> set (m_activeDownloads s')")
      case True
      with inv' have "map_of (m_activeDownloads s') url = Some a"
        by (simp add: downloader_inv_def)
      then show ?thesis ..
    next
      case False
      with Update_removed [OF u] ua have t: "\<exists>r'. objects s' a = Some r' \<and> terminal r'" by auto
      have "map_of (m_activeDownloads s') url = None"
      proof (cases "map_of (m_activeDownloads s') url")
        case None
        then show ?thesis .
      next
        case (Some x)
        then have "(url, x) \<in> set (m_activeDownloads s')" by (rule map_of_SomeD)
        with sub have "(url, x) \<in> set (m_activeDownloads s)" by auto
        with inv m have "x = a" by (simp add: downloader_inv_def)
        with \<open>(url, x) \<in> set (m_activeDownloads s')\<close> False show ?thesis by simp
      qed
      with t show ?thesis by simp
    qed
  next
    case (App_Cancel b)
    with ex show ?thesis by (intro same) (auto simp: on_ok_eq_Inr)
  next
    case (App_CancelAndQuit i)
    with ex show ?thesis by (intro same) auto
  next
    case (Thread_begin i)
    with ex show ?thesis by (intro same) (auto simp: WorkerThread_begin_def)
  next
    case (Thread_WriteCallback i contents size' nmemb)
    with ex show ?thesis
      by (intro same)
        (auto simp: HttpClient_WorkerThread_WriteCallback_def Let_def on_ok_eq_Inr split: if_splits)
  next
    case (Thread_ReadCallback i size' nmemb)
    with ex show ?thesis
      by (intro same)
        (auto simp: HttpClient_WorkerThread_ReadCallback_def Let_def on_ok_eq_Inr split: if_splits)
  next
    case (Thread_HeaderCallback i pHeader size' nmemb)
    with ex show ?thesis
      by (intro same)
        (auto simp: HttpClient_WorkerThread_HeaderCallback_def Let_def split: if_splits)
  next
    case (Thread_ProgressCallback i dltotal dlnow ultotal ulnow)
    with ex show ?thesis
      by (intro same)
        (auto simp: HttpClient_WorkerThread_ProgressCallback_def Let_def on_ok_eq_Inr split: if_splits)
  next
    case (Thread_performed i res code)
    with ex show ?thesis
      by (intro same) (auto simp: WorkerThread_performed_def Let_def on_ok_eq_Inr)
  next
    case (Thread_cleanup i)
    with ex show ?thesis
      by (intro same)
        (auto simp: WorkerThread_cleanup_def Let_def on_ok_eq_Inr IwAssert_eq_Inr split: if_splits)
  next
    case (Thread_quit i)
    with ex show ?thesis by (intro same) (auto simp: WorkerThread_quit_def)
  qed
qed

lemma reachable_run:
  "reachable n s \<Longrightarrow> possible env es s \<Longrightarrow> run env es s = Inr s' \<Longrightarrow> reachable n s'"
proof (induction es arbitrary: s)
  case Nil
  then show ?case by simp
next
  case (Cons e es)
  from Cons.prems(2,3) obtain s1 where
    x: "enabled e s" "exec env e s = Inr s1" "possible env es s1" "run env es s1 = Inr s'"
    by (auto split: sum.splits)
  from Cons.prems(1) x(1,2) have "reachable n s1" by (rule reachable_step)
  from Cons.IH [OF this x(3,4)] show ?case .
qed

lemma example_queued_DownloadFile:
  "DownloadFile example_env ''http://h/a'' ''a.bin'' (HttpDownloader 2) = Inr (0, example_queued)"
  by (simp add: DownloadFile_def example_download_constructed HttpDownloader_def QueueRequest_def
      deref_def store_def example_download_def example_queued_def Let_def numeral_2_eq_2)

lemma example_failed_run:
  "run example_env [App_Update, Thread_begin 0, Thread_performed 0 CURLE_OK 404] example_queued
     = Inr example_failed"
  by (simp add: WorkerThread_performed_def Worker_HandleDone_def HttpDownload_Worker_HandleDone_def
      WorkerThread_begin_def HandleRequestStart_def
      Update_def Update_worker_def Update_dispatch_def deref_def
      example_queued_def example_failed_def example_download_def example_env_def
      Let_def HttpClient_Worker_def upt_rec set_worker_def store_def CURLE_OK_def)

lemma example_failed_possible:
  "possible example_env [App_Update, Thread_begin 0, Thread_performed 0 CURLE_OK 404] example_queued"
  by (simp add: WorkerThread_performed_def Worker_HandleDone_def HttpDownload_Worker_HandleDone_def
      WorkerThread_begin_def HandleRequestStart_def transferring_def
      Update_def Update_worker_def Update_dispatch_def deref_def
      example_queued_def example_failed_def example_download_def example_env_def
      Let_def HttpClient_Worker_def upt_rec set_worker_def store_def CURLE_OK_def)

lemma example_failed_Update:
  "Update example_env example_failed =
     Inr (example_failed
            \<lparr> objects := [0 \<mapsto> example_download\<lparr>m_status := ERROR\<rparr>],
              m_workers := [\<lparr> pCurl = True, pRequest = Some 0, cancelAndQuit = False, status = CLEANUP,
                          responseHeadersDone = False, pResponseHeaders = [], result = CURLE_OK,
                          responseStatusCode = 404 \<rparr>,
                       HttpClient_Worker],
              m_pendingCallbacks := [], m_activeDownloads := [],
              handled := [(0, False, 404)] \<rparr>)"
  by (simp add: Update_def Update_worker_def Update_dispatch_def Update_callbacks_all_def
      HandleResponseHeaders_def HandleResponse_def HttpRequest_HandleResponse_def deref_def
      Call_def HandleDownloadDone_def
      example_queued_def example_failed_def example_download_def Let_def HttpClient_Worker_def upt_rec
      set_worker_def store_def WakeToStatus_def CURLE_OK_def)

text \<open>
  Claim C8. In every state that the downloader can reach, for every key: while the key is
  mapped to a request, \<^verbatim>\<open>DownloadFile\<close> with that key returns this same request and changes
  nothing (no request is created or queued), the mapped request has not completed (its state
  is neither \<open>DONE\<close> nor \<open>ERROR\<close>), and after any one event the key is still mapped to the same
  request, or it is mapped to nothing and the request has completed, with \<open>DONE\<close> or with
  \<open>ERROR\<close>. While the key is mapped to nothing, \<^verbatim>\<open>DownloadFile\<close> constructs a new
  \<^verbatim>\<open>HttpDownload\<close> at a fresh address, queues it with the downloader's own callback and maps
  the key to it. So a key whose request has completed, with success or with failure, is
  mapped to nothing, and the next call with that key creates a fresh request.
\<close>

theorem C8_one_download_per_key:
  assumes "reachable n s"
  shows "(map_of (m_activeDownloads s) url = Some a \<longrightarrow>
            DownloadFile env url destFile s = Inr (a, s)
            \<and> (\<exists>r. objects s a = Some r \<and> m_status r \<noteq> DONE \<and> m_status r \<noteq> ERROR)
            \<and> (exec env' e s = Inr s' \<longrightarrow>
                 map_of (m_activeDownloads s') url = Some a
                 \<or> (map_of (m_activeDownloads s') url = None
                    \<and> (\<exists>r'. objects s' a = Some r' \<and> (m_status r' = DONE \<or> m_status r' = ERROR)))))
         \<and> (map_of (m_activeDownloads s) url = None
              \<and> DownloadFile env url destFile s = Inr (b, s'') \<longrightarrow>
            objects s b = None
            \<and> (\<exists>obj calls'. HttpDownload env url destFile (calls s) = Inr (obj, calls')
                   \<and> objects s'' = (objects s)(b \<mapsto> obj))
            \<and> m_pendingRequests s'' = m_pendingRequests s @ [b]
            \<and> m_pendingCallbacks s'' = m_pendingCallbacks s @ [(b, HttpCallback_HandleDownloadDone)]
            \<and> map_of (m_activeDownloads s'') = (map_of (m_activeDownloads s))(url \<mapsto> b))"
proof -
  from assms have inv: "downloader_inv s" by (rule reachable_inv)
  have p1: "DownloadFile env url destFile s = Inr (a, s)
            \<and> (\<exists>r. objects s a = Some r \<and> m_status r \<noteq> DONE \<and> m_status r \<noteq> ERROR)
            \<and> (exec env' e s = Inr s' \<longrightarrow>
                 map_of (m_activeDownloads s') url = Some a
                 \<or> (map_of (m_activeDownloads s') url = None
                    \<and> (\<exists>r'. objects s' a = Some r' \<and> (m_status r' = DONE \<or> m_status r' = ERROR))))"
    if m: "map_of (m_activeDownloads s) url = Some a"
  proof -
    from m have "(url, a) \<in> set (m_activeDownloads s)" by (rule map_of_SomeD)
    with inv have "\<exists>r. objects s a = Some r \<and> \<not> terminal r"
      by (fastforce simp: downloader_inv_def)
    then have "\<exists>r. objects s a = Some r \<and> m_status r \<noteq> DONE \<and> m_status r \<noteq> ERROR"
      by (simp add: terminal_def)
    moreover have "exec env' e s = Inr s' \<longrightarrow>
                 map_of (m_activeDownloads s') url = Some a
                 \<or> (map_of (m_activeDownloads s') url = None
                    \<and> (\<exists>r'. objects s' a = Some r' \<and> (m_status r' = DONE \<or> m_status r' = ERROR)))"
      using exec_mapping [OF inv _ m, of env' e s'] by (simp add: terminal_def)
    ultimately show ?thesis using DownloadFile_existing [OF m] by simp
  qed
  have p2: "objects s b = None
            \<and> (\<exists>obj calls'. HttpDownload env url destFile (calls s) = Inr (obj, calls')
                   \<and> objects s'' = (objects s)(b \<mapsto> obj))
            \<and> m_pendingRequests s'' = m_pendingRequests s @ [b]
            \<and> m_pendingCallbacks s'' = m_pendingCallbacks s @ [(b, HttpCallback_HandleDownloadDone)]
            \<and> map_of (m_activeDownloads s'') = (map_of (m_activeDownloads s))(url \<mapsto> b)"
    if n: "map_of (m_activeDownloads s) url = None" and d: "DownloadFile env url destFile s = Inr (b, s'')"
  proof -
    from DownloadFile_new [OF n d] obtain obj calls' where
      f: "HttpDownload env url destFile (calls s) = Inr (obj, calls')" "b = next_object s"
        "objects s'' = (objects s)(b \<mapsto> obj)"
        "m_pendingRequests s'' = m_pendingRequests s @ [b]"
        "m_pendingCallbacks s'' = m_pendingCallbacks s @ [(b, HttpCallback_HandleDownloadDone)]"
        "m_activeDownloads s'' = map_assign url b (m_activeDownloads s)"
      by blast
    from inv f(2) have "objects s b = None" by (fastforce simp: downloader_inv_def)
    with f show ?thesis by (auto simp: map_of_map_assign)
  qed
  from p1 p2 show ?thesis by blast
qed

theorem C8_one_download_per_key_witness:
  "reachable 2 (HttpDownloader 2 :: string program)
   \<and> map_of (m_activeDownloads (HttpDownloader 2 :: string program)) ''http://h/a'' = None
   \<and> DownloadFile example_env ''http://h/a'' ''a.bin'' (HttpDownloader 2) = Inr (0, example_queued)
   \<and> m_pendingRequests example_queued = [0]
   \<and> m_pendingCallbacks example_queued = [(0, HttpCallback_HandleDownloadDone)]
   \<and> reachable 2 example_queued
   \<and> map_of (m_activeDownloads example_queued) ''http://h/a'' = Some 0
   \<and> DownloadFile example_env ''http://h/a'' ''other.bin'' example_queued = Inr (0, example_queued)
   \<and> reachable 2 example_failed
   \<and> map_of (m_activeDownloads example_failed) ''http://h/a'' = Some 0
   \<and> \<not> isl (exec example_env App_Update example_failed)
   \<and> map_of (m_activeDownloads (projr (exec example_env App_Update example_failed))) ''http://h/a'' = None
   \<and> map_option m_status (objects (projr (exec example_env App_Update example_failed)) 0) = Some ERROR"
proof -
  let ?s0 = "HttpDownloader 2 :: string program"
  let ?s3 = "projr (exec example_env App_Update example_failed)"
  have r0: "reachable 2 ?s0" by (rule reachable_init)
  have r1: "reachable 2 example_queued"
    using reachable_step [OF r0, of "App_DownloadFile ''http://h/a'' ''a.bin''" example_env example_queued]
    by (simp add: example_queued_DownloadFile)
  have r2: "reachable 2 example_failed"
    using r1 example_failed_possible example_failed_run by (rule reachable_run)
  have m0: "map_of (m_activeDownloads ?s0) ''http://h/a'' = None"
    by (simp add: HttpDownloader_def)
  have m1: "map_of (m_activeDownloads example_queued) ''http://h/a'' = Some 0"
    by (simp add: example_queued_def)
  have m2: "map_of (m_activeDownloads example_failed) ''http://h/a'' = Some 0"
    by (simp add: example_queued_def example_failed_def)
  have u: "exec example_env App_Update example_failed = Inr ?s3"
    by (simp add: example_failed_Update)
  have o: "objects ?s3 0 = Some (example_download\<lparr>m_status := ERROR\<rparr>)"
    by (simp add: example_failed_Update)
  from C8_one_download_per_key [OF r0, where url = "''http://h/a''" and destFile = "''a.bin''"
      and env = example_env and b = 0 and s'' = example_queued] m0 example_queued_DownloadFile
  have "m_pendingRequests example_queued = m_pendingRequests ?s0 @ [0]
        \<and> m_pendingCallbacks example_queued
            = m_pendingCallbacks ?s0 @ [(0, HttpCallback_HandleDownloadDone)]"
    by blast
  then have a: "m_pendingRequests example_queued = [0]
           \<and> m_pendingCallbacks example_queued = [(0, HttpCallback_HandleDownloadDone)]"
    by (simp add: HttpDownloader_def)
  from C8_one_download_per_key [OF r1, where url = "''http://h/a''" and destFile = "''other.bin''"
      and env = example_env and a = 0] m1
  have b: "DownloadFile example_env ''http://h/a'' ''other.bin'' example_queued = Inr (0, example_queued)"
    by simp
  have r3: "reachable 2 ?s3"
    using r2 _ u by (rule reachable_step) simp
  have n: "map_of (m_activeDownloads ?s3) ''http://h/a'' \<noteq> Some 0"
  proof
    assume h: "map_of (m_activeDownloads ?s3) ''http://h/a'' = Some 0"
    from C8_one_download_per_key [OF r3, where url = "''http://h/a''" and a = 0
      and env = example_env and destFile = "''a.bin''" and env' = example_env and e = App_Update
      and s' = ?s3 and b = 0 and s'' = ?s3, THEN conjunct1, rule_format, OF h,
      THEN conjunct2, THEN conjunct1]
    show False unfolding o by simp
  qed
  have "map_of (m_activeDownloads ?s3) ''http://h/a'' = Some 0
        \<or> map_of (m_activeDownloads ?s3) ''http://h/a'' = None"
    using C8_one_download_per_key [OF r2, where url = "''http://h/a''" and a = 0
      and env = example_env and destFile = "''a.bin''" and env' = example_env and e = App_Update
      and s' = ?s3 and b = 0 and s'' = ?s3, THEN conjunct1, rule_format, OF m2,
      THEN conjunct2, THEN conjunct2, rule_format, OF u]
    by (rule disjE) simp_all
  with n o have c: "map_of (m_activeDownloads ?s3) ''http://h/a'' = None
           \<and> map_option m_status (objects ?s3 0) = Some ERROR"
    by simp
  have i: "\<not> isl (exec example_env App_Update example_failed)"
    by (simp add: example_failed_Update)
  from r0 r1 r2 m0 m1 m2 i a b c show ?thesis
    by (simp add: example_queued_DownloadFile)
qed

end
